theory Spec2Isabelle
  imports Main "HOL-Library.Word" "HOL-Library.AList"
begin

section \<open>Rollback mitigation (couchbase/rollback\_mitigation.go)\<close>

text \<open>
  A shallow embedding of the rollback mitigation of go-dcp. The Go struct
  \<^verbatim>\<open>rollbackMitigation\<close> becomes a record that every operation takes and returns;
  a panic is the left summand of a sum type; the logger, the event bus and the
  requests sent to the cluster client are output traces kept in the record.
  Every operation is taken as one atomic step: the goroutines of the source
  interleave at the granularity of whole operations. The fields \<^verbatim>\<open>client\<close>,
  \<^verbatim>\<open>config\<close>, \<^verbatim>\<open>bus\<close> and the two channels are not state of the model: what the
  client answers is an argument of the operation that asks, and of the channels the
  model keeps what decides whether a handshake is answered, the number of observer
  goroutines that are alive.
\<close>

subsection \<open>Values of gocbcore\<close>

type_synonym vbid = "16 word"   \<comment> \<open>uint16\<close>
type_synonym VbUUID = "64 word" \<comment> \<open>gocbcore.VbUUID, a uint64\<close>
type_synonym SeqNo = "64 word"  \<comment> \<open>gocbcore.SeqNo, a uint64\<close>
type_synonym goint = "64 word"  \<comment> \<open>Go's int on a 64-bit platform, read with sint\<close>

text \<open>
  Go errors form chains (an error may wrap another one); \<^verbatim>\<open>errors.Is\<close> walks the
  chain looking for the target.
\<close>

datatype err =
    ErrTemporaryFailure
  | ErrInvalidReplica
  | ErrOther string
  | Wrapped string err

fun errors_Is :: "err \<Rightarrow> err \<Rightarrow> bool" where
  "errors_Is (Wrapped msg inner) target =
     (Wrapped msg inner = target \<or> errors_Is inner target)"
| "errors_Is e target = (e = target)"

datatype panic =
    PanicErr err            \<comment> \<open>panic(err)\<close>
  | PanicNilDereference     \<comment> \<open>runtime error: nil pointer dereference\<close>
  | PanicIndexOutOfRange    \<comment> \<open>runtime error: index out of range\<close>
  | PanicMakeSlice          \<comment> \<open>runtime error: makeslice: len out of range\<close>
  | PanicReflect            \<comment> \<open>reflect: call of a Value method on the zero Value\<close>

text \<open>A log line: its level and its format string (the arguments are left out).\<close>

datatype log_entry = LogError string | LogDebug string | LogInfo string

subsection \<open>The replica state\<close>

record vbUUIDAndSeqNo =
  vbUUID :: VbUUID
  seqNo :: SeqNo
  absent :: bool

definition SetAbsent :: "vbUUIDAndSeqNo \<Rightarrow> vbUUIDAndSeqNo" where
  "SetAbsent v = v\<lparr>absent := True\<rparr>"

definition IsAbsent :: "vbUUIDAndSeqNo \<Rightarrow> bool" where
  "IsAbsent v = absent v"

definition SetSeqNo :: "vbUUIDAndSeqNo \<Rightarrow> SeqNo \<Rightarrow> vbUUIDAndSeqNo" where
  "SetSeqNo v s = v\<lparr>seqNo := s\<rparr>"

definition SetVbUUID :: "vbUUIDAndSeqNo \<Rightarrow> VbUUID \<Rightarrow> vbUUIDAndSeqNo" where
  "SetVbUUID v u = v\<lparr>vbUUID := u\<rparr>"

text \<open>The zero value \<^verbatim>\<open>&vbUUIDAndSeqNo{}\<close>.\<close>

definition zeroReplica :: vbUUIDAndSeqNo where
  "zeroReplica = \<lparr>vbUUID = 0, seqNo = 0, absent = False\<rparr>"

subsection \<open>The concurrent map\<close>

text \<open>
  Modelled from the spec: \<^verbatim>\<open>wrapper.ConcurrentSwissMap\<close> is not among the sources. The
  spec calls it a map from vBucket ids to values that is allocated fresh, read by key
  and replaced wholesale; the code uses \<^verbatim>\<open>Load\<close>, \<^verbatim>\<open>Store\<close> and \<^verbatim>\<open>Range\<close>. It is an
  association list here: \<^verbatim>\<open>Load\<close> is the lookup, \<^verbatim>\<open>Store\<close> replaces the value of a key
  that is present and adds a key that is not, and \<^verbatim>\<open>Range\<close> visits the entries in the
  order of the list, which stands for whatever order the hash table has.
\<close>

type_synonym 'v swissmap = "(vbid \<times> 'v) list"

definition CreateConcurrentSwissMap :: "'v swissmap" where
  "CreateConcurrentSwissMap = []"

definition Load :: "'v swissmap \<Rightarrow> vbid \<Rightarrow> 'v option" where
  "Load m k = map_of m k"

definition Store :: "'v swissmap \<Rightarrow> vbid \<Rightarrow> 'v \<Rightarrow> 'v swissmap" where
  "Store m k v = AList.update k v m"

subsection \<open>The subsystem's state\<close>

record ConfigSnapshot =
  revEpoch :: "64 word"   \<comment> \<open>int64, read by reflection\<close>
  revID :: "64 word"      \<comment> \<open>int64, read by reflection\<close>
  NumReplicas :: "err + goint"
  VbucketToServer :: "vbid \<Rightarrow> 32 word \<Rightarrow> err + int"

record PersistSeqNo =       \<comment> \<open>models.PersistSeqNo, the event sent to the bus\<close>
  ev_VbID :: vbid
  ev_SeqNo :: SeqNo

record ObserveVbResult =    \<comment> \<open>the fields of gocbcore.ObserveVbResult the code reads\<close>
  res_PersistSeqNo :: SeqNo
  res_VbUUID :: VbUUID

record FailoverEntry =      \<comment> \<open>gocbcore.FailoverEntry\<close>
  fe_VbUUID :: VbUUID
  fe_SeqNo :: SeqNo

record ObserveVbOptions =
  optVbID :: vbid
  optReplicaIdx :: int
  optVbUUID :: VbUUID

record rollbackMitigation =
  configSnapshot :: "ConfigSnapshot option"           \<comment> \<open>nil until the first config\<close>
  persistedSeqNos :: "vbUUIDAndSeqNo list swissmap"
  vbUUIDMap :: "VbUUID swissmap"
  configWatchTimer :: bool                            \<comment> \<open>the ticker is not nil\<close>
  observeTimer :: bool                                \<comment> \<open>the ticker is not nil\<close>
  vbIds :: "vbid list"
  activeGroupID :: goint
  closed :: bool
  observers :: nat                                    \<comment> \<open>goroutines running startObserve\<close>
  published :: "PersistSeqNo list"                    \<comment> \<open>what the bus was sent\<close>
  observeRequests :: "ObserveVbOptions list"          \<comment> \<open>what ObserveVb was sent\<close>
  logs :: "log_entry list"                            \<comment> \<open>what the logger was sent\<close>

text \<open>
  How a goroutine stops short of returning: a panic, or a wait that nothing ends.
  Either comes with the state it leaves behind. The operations of the observer keep
  the plain \<open>panic\<close>; where they are steps of a run, the state kept with their panic
  is the one the operation was entered in.
\<close>

datatype halt =
    Panic panic rollbackMitigation     \<comment> \<open>the panic, and the state when it was raised\<close>
  | Blocked rollbackMitigation         \<comment> \<open>waiting for ever on \<^verbatim>\<open>observeCloseDoneCh\<close>\<close>

subsection \<open>getMinSeqNo\<close>

text \<open>The first loop: the index of the first slot that is not absent, or -1.\<close>

fun firstPresent :: "nat \<Rightarrow> vbUUIDAndSeqNo list \<Rightarrow> int" where
  "firstPresent idx [] = -1"
| "firstPresent idx (replica # rest) =
     (if \<not> IsAbsent replica then int idx else firstPresent (Suc idx) rest)"

text \<open>The second loop, from \<open>idx\<close> on, with the reference vbUUID and the running minimum.\<close>

function scanReplicas ::
  "vbUUIDAndSeqNo list \<Rightarrow> nat \<Rightarrow> VbUUID \<Rightarrow> SeqNo \<Rightarrow> SeqNo \<times> log_entry list" where
  "scanReplicas replicas idx vbUUID' minSeqNo =
     (if idx < length replicas then
        (let replica = replicas ! idx in
         if IsAbsent replica then scanReplicas replicas (idx + 1) vbUUID' minSeqNo
         else if vbUUID' \<noteq> vbUUID replica then
           (0, [LogDebug ''vbUUID mismatch %v != %v for %v index of %v''])
         else scanReplicas replicas (idx + 1) vbUUID'
                (if minSeqNo > seqNo replica then seqNo replica else minSeqNo))
      else (minSeqNo, []))"
  by pat_completeness auto
termination
  by (relation "measure (\<lambda>(replicas, idx, u, m). length replicas - idx)") auto

declare scanReplicas.simps [simp del]

definition getMinSeqNo :: "rollbackMitigation \<Rightarrow> vbid \<Rightarrow> SeqNo \<times> log_entry list" where
  "getMinSeqNo r vbID =
     (let replicas = (case Load (persistedSeqNos r) vbID of None \<Rightarrow> [] | Some rs \<Rightarrow> rs);
          startIndex = firstPresent 0 replicas
      in if startIndex = -1 then (0, [LogError ''all replicas absent''])
         else scanReplicas replicas (nat startIndex + 1)
                (vbUUID (replicas ! nat startIndex)) (seqNo (replicas ! nat startIndex)))"

subsection \<open>The config watcher\<close>

text \<open>
  \<^verbatim>\<open>getRevEpochAndID\<close> reads two private int64 fields by reflection; on a nil
  snapshot the reflection panics.
\<close>

definition getRevEpochAndID :: "ConfigSnapshot option \<Rightarrow> panic + (64 word \<times> 64 word)" where
  "getRevEpochAndID snapshot =
     (case snapshot of None \<Rightarrow> Inl PanicReflect
      | Some s \<Rightarrow> Inr (revEpoch s, revID s))"

definition isConfigSnapshotNewerThan ::
  "rollbackMitigation \<Rightarrow> ConfigSnapshot option \<Rightarrow> panic + bool" where
  "isConfigSnapshotNewerThan r newConfigSnapshot =
     (case getRevEpochAndID (configSnapshot r) of Inl p \<Rightarrow> Inl p
      | Inr (oldEpoch, oldRevID) \<Rightarrow>
        (case getRevEpochAndID newConfigSnapshot of Inl p \<Rightarrow> Inl p
         | Inr (newEpoch, newRevID) \<Rightarrow>
             Inr (if newEpoch <s oldEpoch then False
                  else if newEpoch = oldEpoch then
                    (if newRevID = oldRevID then False
                     else if newRevID <s oldRevID then False
                     else True)
                  else True)))"

subsection \<open>reset and markAbsentInstances\<close>

text \<open>
  \<^verbatim>\<open>make([]*vbUUIDAndSeqNo, replicas+1)\<close> panics on a negative length; the sum
  \<open>replicas + 1\<close> is Go's wrapping addition, and the fresh map is already assigned when
  \<^verbatim>\<open>make\<close> panics for the first vBucket. Running out of memory is outside the model.
\<close>

definition reset :: "rollbackMitigation \<Rightarrow> halt + rollbackMitigation" where
  "reset r =
     (case configSnapshot r of None \<Rightarrow> Inl (Panic PanicNilDereference r)
      | Some cs \<Rightarrow>
        (case NumReplicas cs of Inl err \<Rightarrow> Inl (Panic (PanicErr err) r)
         | Inr replicas \<Rightarrow>
             if vbIds r \<noteq> [] \<and> replicas + 1 <s 0
             then Inl (Panic PanicMakeSlice (r\<lparr>persistedSeqNos := CreateConcurrentSwissMap\<rparr>))
             else Inr (r\<lparr>persistedSeqNos :=
                    fold (\<lambda>vbID m. Store m vbID (replicate (unat (replicas + 1)) zeroReplica))
                      (vbIds r) CreateConcurrentSwissMap\<rparr>)))"

text \<open>
  The body of the inner loop of \<^verbatim>\<open>markAbsentInstances\<close> for one slot: the error that
  ends the iteration (if any), the slot afterwards, and the lines logged.
\<close>

definition markSlot ::
  "ConfigSnapshot \<Rightarrow> vbid \<Rightarrow> nat \<Rightarrow> vbUUIDAndSeqNo \<Rightarrow>
     err option \<times> vbUUIDAndSeqNo \<times> log_entry list" where
  "markSlot cs vbID idx replica =
     (case VbucketToServer cs vbID (of_nat idx) of
        Inl err \<Rightarrow>
          if errors_Is err ErrInvalidReplica then
            (None, SetAbsent replica,
             [LogDebug ''invalid replica of vbId: %v, replica: %v, err: %v''])
          else (Some err, replica, [])
      | Inr serverIndex \<Rightarrow>
          if serverIndex < 0 then
            (None, SetAbsent replica,
             [LogDebug ''invalid server index of vbId: %v, replica: %v, serverIndex: %v''])
          else (None, replica, []))"

fun markReplicas ::
  "ConfigSnapshot \<Rightarrow> vbid \<Rightarrow> nat \<Rightarrow> vbUUIDAndSeqNo list \<Rightarrow>
     err option \<times> vbUUIDAndSeqNo list \<times> log_entry list" where
  "markReplicas cs vbID idx [] = (None, [], [])"
| "markReplicas cs vbID idx (replica # rest) =
     (case markSlot cs vbID idx replica of
        (Some err, replica', lg) \<Rightarrow> (Some err, replica' # rest, lg)
      | (None, replica', lg) \<Rightarrow>
          (case markReplicas cs vbID (Suc idx) rest of
             (outerError, rest', lg') \<Rightarrow> (outerError, replica' # rest', lg @ lg')))"

text \<open>The \<^verbatim>\<open>Range\<close> over the map: it stops at the first entry whose callback returns false.\<close>

fun markEntries ::
  "ConfigSnapshot \<Rightarrow> vbUUIDAndSeqNo list swissmap \<Rightarrow>
     err option \<times> vbUUIDAndSeqNo list swissmap \<times> log_entry list" where
  "markEntries cs [] = (None, [], [])"
| "markEntries cs ((vbID, replicas) # rest) =
     (case markReplicas cs vbID 0 replicas of
        (Some err, replicas', lg) \<Rightarrow> (Some err, (vbID, replicas') # rest, lg)
      | (None, replicas', lg) \<Rightarrow>
          (case markEntries cs rest of
             (outerError, rest', lg') \<Rightarrow> (outerError, (vbID, replicas') # rest', lg @ lg')))"

text \<open>
  \<^verbatim>\<open>markAbsentInstances\<close> returns its error beside the state, since the slots marked
  before the error stay marked. With a nil snapshot the first call of
  \<^verbatim>\<open>VbucketToServer\<close> panics.
\<close>

definition markAbsentInstances ::
  "rollbackMitigation \<Rightarrow> halt + (err option \<times> rollbackMitigation)" where
  "markAbsentInstances r =
     (case configSnapshot r of
        None \<Rightarrow>
          if list_all (\<lambda>(vbID, replicas). replicas = []) (persistedSeqNos r)
          then Inr (None, r) else Inl (Panic PanicNilDereference r)
      | Some cs \<Rightarrow>
          (case markEntries cs (persistedSeqNos r) of
             (outerError, m, lg) \<Rightarrow>
               Inr (outerError, r\<lparr>persistedSeqNos := m, logs := logs r @ lg\<rparr>)))"

subsection \<open>reconfigure\<close>

text \<open>
  The handshake with the running observer (stop the ticker, send on the close channel,
  wait for the acknowledgement) is answered by an observer goroutine, which logs a
  line and returns; \<^verbatim>\<open>reconfigure\<close> then logs its own line. The send never waits (the
  channel has room for one), but with the ticker set and no observer goroutine alive
  the acknowledgement never comes: \<^verbatim>\<open>reconfigure\<close> waits for ever at the receive, before
  the counter is touched. An observer that is alive but still before its loop answers
  once it gets there; the model lets it answer at once. The last line is
  \<^verbatim>\<open>go r.startObserve(r.activeGroupID)\<close>: one more observer goroutine, whose setup and
  ticks are steps of their own.
\<close>

definition reconfigure :: "rollbackMitigation \<Rightarrow> halt + rollbackMitigation" where
  "reconfigure r =
     (let r1 = r\<lparr>logs := logs r @ [LogDebug ''reconfigure triggerred'']\<rparr>
      in if observeTimer r1 \<and> observers r1 = 0 then Inl (Blocked r1)
         else
           (let r2 = (if observeTimer r1
                      then r1\<lparr>observers := observers r1 - 1,
                              logs := logs r1 @ [LogDebug ''observe close triggered'',
                                                 LogDebug ''observe close done'']\<rparr>
                      else r1);
                r3 = r2\<lparr>activeGroupID := activeGroupID r2 + 1\<rparr>;
                r4 = r3\<lparr>logs := logs r3 @
                         [LogInfo ''new cluster config received, groupId = %v'']\<rparr>
            in case reset r4 of Inl h \<Rightarrow> Inl h
               | Inr r5 \<Rightarrow>
                 (case markAbsentInstances r5 of Inl h \<Rightarrow> Inl h
                  | Inr (Some err, r6) \<Rightarrow> Inl (Panic (PanicErr err) r6)
                  | Inr (None, r6) \<Rightarrow> Inr (r6\<lparr>observers := observers r6 + 1\<rparr>))))"

text \<open>
  \<^verbatim>\<open>configWatch\<close> takes what \<^verbatim>\<open>GetConfigSnapshot\<close> returned: an error, or a snapshot
  with a nil error.
\<close>

definition configWatch ::
  "rollbackMitigation \<Rightarrow> err + ConfigSnapshot \<Rightarrow> halt + rollbackMitigation" where
  "configWatch r got =
     (case got of Inl err \<Rightarrow> Inr r
      | Inr snapshot \<Rightarrow>
        (case configSnapshot r of
           None \<Rightarrow> reconfigure (r\<lparr>configSnapshot := Some snapshot\<rparr>)
         | Some installed \<Rightarrow>
           (case isConfigSnapshotNewerThan r (Some snapshot) of Inl p \<Rightarrow> Inl (Panic p r)
            | Inr newer \<Rightarrow>
                if newer then reconfigure (r\<lparr>configSnapshot := Some snapshot\<rparr>)
                else Inr r)))"

subsection \<open>The observer\<close>

text \<open>
  The callback that \<^verbatim>\<open>observe\<close> hands to \<^verbatim>\<open>observeVbID\<close>. It captures \<open>vbID\<close>,
  \<open>replica\<close>, \<open>groupID\<close> and \<open>vbUUID\<close>, reads the state at the time it is delivered, and
  receives the result (nil on error) and the error. A write through the pointer
  \<^verbatim>\<open>replicas[replica]\<close> is a write to the vector stored under \<open>vbID\<close>.
\<close>

definition observe_callback ::
  "vbid \<Rightarrow> int \<Rightarrow> goint \<Rightarrow> VbUUID \<Rightarrow> rollbackMitigation \<Rightarrow>
     ObserveVbResult option \<Rightarrow> err option \<Rightarrow> panic + rollbackMitigation" where
  "observe_callback vbID replica groupID vbUUID' r result err =
     (if closed r \<or> activeGroupID r \<noteq> groupID then
        Inr (r\<lparr>logs := logs r @ [LogDebug ''closed(%v) or groupID(%v!=%v) changed on observe'']\<rparr>)
      else case err of
        Some e \<Rightarrow>
          if errors_Is e ErrTemporaryFailure
          then Inr (r\<lparr>logs := logs r @ [LogError ''error while observe: %v'']\<rparr>)
          else Inl (PanicErr e)
      | None \<Rightarrow>
         (let (replicas, r1) =
                (case Load (persistedSeqNos r) vbID of
                   None \<Rightarrow> ([], r\<lparr>logs := logs r @ [LogError ''replicas of vbID: %v not found'']\<rparr>)
                 | Some rs \<Rightarrow> (rs, r))
          in if int (length replicas) > replica then
               (if replica < 0 then Inl PanicIndexOutOfRange
                else case result of None \<Rightarrow> Inl PanicNilDereference
                  | Some res \<Rightarrow>
                     (let slot = SetVbUUID (SetSeqNo (replicas ! nat replica) (res_PersistSeqNo res))
                                   (res_VbUUID res);
                          r2 = r1\<lparr>persistedSeqNos :=
                                 Store (persistedSeqNos r1) vbID (replicas[nat replica := slot])\<rparr>;
                          (minSeqNo, lg) = getMinSeqNo r2 vbID;
                          r3 = r2\<lparr>logs := logs r2 @ lg,
                                published := published r2 @ [\<lparr>ev_VbID = vbID, ev_SeqNo = minSeqNo\<rparr>]\<rparr>
                      in Inr (if vbUUID' \<noteq> res_VbUUID res
                              then r3\<lparr>vbUUIDMap := Store (vbUUIDMap r3) vbID (res_VbUUID res)\<rparr>
                              else r3)))
             else Inr (r1\<lparr>logs := logs r1 @ [LogError ''replica: %v not found'']\<rparr>)))"

text \<open>
  \<^verbatim>\<open>observeVbID\<close> sends the request; \<open>ObserveVb\<close> is the client's immediate answer
  (an error, or none when the request is queued). On an error the callback runs at once.
\<close>

definition observeVbID ::
  "rollbackMitigation \<Rightarrow> (ObserveVbOptions \<Rightarrow> err option) \<Rightarrow> vbid \<Rightarrow> int \<Rightarrow> VbUUID \<Rightarrow>
     (rollbackMitigation \<Rightarrow> ObserveVbResult option \<Rightarrow> err option \<Rightarrow> panic + rollbackMitigation) \<Rightarrow>
     panic + rollbackMitigation" where
  "observeVbID r ObserveVb vbID replica vbUUID' callback =
     (let opts = \<lparr>optVbID = vbID, optReplicaIdx = replica, optVbUUID = vbUUID'\<rparr>;
          r1 = r\<lparr>observeRequests := observeRequests r @ [opts]\<rparr>
      in case ObserveVb opts of
           None \<Rightarrow> Inr r1
         | Some err \<Rightarrow>
             callback
               (r1\<lparr>logs := logs r1 @
                  [LogError ''observeVBID error for vbId: %v, replica:%v, vbUUID: %v, err: %v'']\<rparr>)
               None (Some err))"

definition observe ::
  "rollbackMitigation \<Rightarrow> (ObserveVbOptions \<Rightarrow> err option) \<Rightarrow> vbid \<Rightarrow> int \<Rightarrow> goint \<Rightarrow> VbUUID \<Rightarrow>
     panic + rollbackMitigation" where
  "observe r ObserveVb vbID replica groupID vbUUID' =
     observeVbID r ObserveVb vbID replica vbUUID' (observe_callback vbID replica groupID vbUUID')"

text \<open>\<^verbatim>\<open>loadVbUUIDMap\<close>: the \<^verbatim>\<open>Range\<close> over the entries, then the function itself.\<close>

fun loadVbUUIDMap_range ::
  "(vbid \<Rightarrow> err + FailoverEntry list) \<Rightarrow> vbUUIDAndSeqNo list swissmap \<Rightarrow>
     rollbackMitigation \<Rightarrow> panic + rollbackMitigation" where
  "loadVbUUIDMap_range GetFailoverLogs [] r = Inr r"
| "loadVbUUIDMap_range GetFailoverLogs ((vbID, replicas) # rest) r =
     (case GetFailoverLogs vbID of Inl err \<Rightarrow> Inl (PanicErr err)
      | Inr failoverLogs \<Rightarrow>
        (case failoverLogs of [] \<Rightarrow> Inl PanicIndexOutOfRange
         | newest # older \<Rightarrow>
             loadVbUUIDMap_range GetFailoverLogs rest
               (r\<lparr>vbUUIDMap := Store (vbUUIDMap r) vbID (fe_VbUUID newest),
                  logs := logs r @ [LogDebug ''observing vbID: %v, vbUUID: %v, failoverInfo: %v'']\<rparr>)))"

definition loadVbUUIDMap ::
  "rollbackMitigation \<Rightarrow> (vbid \<Rightarrow> err + FailoverEntry list) \<Rightarrow> panic + rollbackMitigation" where
  "loadVbUUIDMap r GetFailoverLogs = loadVbUUIDMap_range GetFailoverLogs (persistedSeqNos r) r"

text \<open>\<^verbatim>\<open>startObserve\<close> up to its loop: the fresh map, the failover logs, the ticker.\<close>

definition startObserve_setup ::
  "rollbackMitigation \<Rightarrow> (vbid \<Rightarrow> err + FailoverEntry list) \<Rightarrow> panic + rollbackMitigation" where
  "startObserve_setup r GetFailoverLogs =
     (case loadVbUUIDMap (r\<lparr>vbUUIDMap := CreateConcurrentSwissMap\<rparr>) GetFailoverLogs of
        Inl p \<Rightarrow> Inl p
      | Inr r' \<Rightarrow> Inr (r'\<lparr>observeTimer := True\<rparr>))"

text \<open>
  One tick of the loop of \<^verbatim>\<open>startObserve\<close>: the inner loop over the slots of one
  vBucket (the flag says whether the \<^verbatim>\<open>Range\<close> goes on), then the \<^verbatim>\<open>Range\<close>.
\<close>

fun tickReplicas ::
  "(ObserveVbOptions \<Rightarrow> err option) \<Rightarrow> goint \<Rightarrow> vbid \<Rightarrow> nat \<Rightarrow> vbUUIDAndSeqNo list \<Rightarrow>
     rollbackMitigation \<Rightarrow> panic + (bool \<times> rollbackMitigation)" where
  "tickReplicas ObserveVb groupID vbID idx [] r = Inr (True, r)"
| "tickReplicas ObserveVb groupID vbID idx (replica # rest) r =
     (if IsAbsent replica then tickReplicas ObserveVb groupID vbID (Suc idx) rest r
      else if closed r \<or> activeGroupID r \<noteq> groupID then
        Inr (False,
             r\<lparr>logs := logs r @ [LogDebug ''closed(%v) or groupID(%v!=%v) changed on startObserve'']\<rparr>)
      else
        (let vbUUID' = (case Load (vbUUIDMap r) vbID of None \<Rightarrow> 0 | Some u \<Rightarrow> u)
         in case observe r ObserveVb vbID (int idx) groupID vbUUID' of
              Inl p \<Rightarrow> Inl p
            | Inr r' \<Rightarrow> tickReplicas ObserveVb groupID vbID (Suc idx) rest r'))"

fun tickEntries ::
  "(ObserveVbOptions \<Rightarrow> err option) \<Rightarrow> goint \<Rightarrow> vbUUIDAndSeqNo list swissmap \<Rightarrow>
     rollbackMitigation \<Rightarrow> panic + rollbackMitigation" where
  "tickEntries ObserveVb groupID [] r = Inr r"
| "tickEntries ObserveVb groupID ((vbID, replicas) # rest) r =
     (case tickReplicas ObserveVb groupID vbID 0 replicas r of
        Inl p \<Rightarrow> Inl p
      | Inr (continue, r') \<Rightarrow>
          if continue then tickEntries ObserveVb groupID rest r' else Inr r')"

definition startObserve_tick ::
  "rollbackMitigation \<Rightarrow> goint \<Rightarrow> (ObserveVbOptions \<Rightarrow> err option) \<Rightarrow> panic + rollbackMitigation" where
  "startObserve_tick r groupID ObserveVb = tickEntries ObserveVb groupID (persistedSeqNos r) r"

subsection \<open>Start, Stop and the constructor\<close>

text \<open>
  \<^verbatim>\<open>Start\<close> takes the outcome of \<^verbatim>\<open>waitFirstConfig\<close>: an error, on which it panics, or
  the first snapshot, which is installed before \<^verbatim>\<open>reconfigure\<close> runs.
\<close>

definition Start ::
  "rollbackMitigation \<Rightarrow> err + ConfigSnapshot \<Rightarrow> halt + rollbackMitigation" where
  "Start r first =
     (let r1 = r\<lparr>logs := logs r @ [LogInfo ''rollback mitigation will start with %v interval'']\<rparr>
      in case first of
           Inl err \<Rightarrow>
             Inl (Panic (PanicErr err)
                    (r1\<lparr>logs := logs r1 @ [LogError ''cannot get first config: %v'']\<rparr>))
         | Inr snapshot \<Rightarrow>
           (case reconfigure (r1\<lparr>configSnapshot := Some snapshot\<rparr>) of
              Inl h \<Rightarrow> Inl h
            | Inr r2 \<Rightarrow> Inr (r2\<lparr>configWatchTimer := True\<rparr>)))"

text \<open>
  \<^verbatim>\<open>Stop\<close> has the same handshake as \<^verbatim>\<open>reconfigure\<close>, after it has set the flag. The
  tickers are stopped, not set to nil.
\<close>

definition Stop :: "rollbackMitigation \<Rightarrow> halt + rollbackMitigation" where
  "Stop r =
     (let r1 = r\<lparr>closed := True\<rparr>
      in if observeTimer r1 \<and> observers r1 = 0 then Inl (Blocked r1)
         else
           (let r2 = (if observeTimer r1
                      then r1\<lparr>observers := observers r1 - 1,
                              logs := logs r1 @ [LogDebug ''observe close triggered'']\<rparr>
                      else r1)
            in Inr (r2\<lparr>logs := logs r2 @ [LogInfo ''rollback mitigation stopped'']\<rparr>)))"

definition NewRollbackMitigation :: "vbid list \<Rightarrow> rollbackMitigation" where
  "NewRollbackMitigation vbIds' =
     \<lparr>configSnapshot = None, persistedSeqNos = [], vbUUIDMap = [],
      configWatchTimer = False, observeTimer = False, vbIds = vbIds',
      activeGroupID = 0, closed = False, observers = 0,
      published = [], observeRequests = [], logs = []\<rparr>"

subsection \<open>Runs of the subsystem\<close>

text \<open>
  The operations that timers, the client and the owner of the subsystem invoke, each
  with what the environment supplies. A run delivers the events one after the other
  and ends where a step panics or waits for ever. Any list of events is a run of the
  model, also lists that no schedule of the goroutines produces (a tick with no
  observer alive): what holds of every run holds of the real ones.
\<close>

datatype event =
    EvStart "err + ConfigSnapshot"
  | EvConfigWatch "err + ConfigSnapshot"
  | EvStartObserve "vbid \<Rightarrow> err + FailoverEntry list"
  | EvObserveTick goint "ObserveVbOptions \<Rightarrow> err option"
  | EvObserveCallback vbid int goint VbUUID "ObserveVbResult option" "err option"
  | EvStop

definition raised :: "rollbackMitigation \<Rightarrow> panic + rollbackMitigation \<Rightarrow> halt + rollbackMitigation" where
  "raised r res = (case res of Inl p \<Rightarrow> Inl (Panic p r) | Inr r' \<Rightarrow> Inr r')"

fun step :: "rollbackMitigation \<Rightarrow> event \<Rightarrow> halt + rollbackMitigation" where
  "step r (EvStart first) = Start r first"
| "step r (EvConfigWatch got) = configWatch r got"
| "step r (EvStartObserve GetFailoverLogs) = raised r (startObserve_setup r GetFailoverLogs)"
| "step r (EvObserveTick groupID ObserveVb) = raised r (startObserve_tick r groupID ObserveVb)"
| "step r (EvObserveCallback vbID replica groupID vbUUID' result err) =
     raised r (observe_callback vbID replica groupID vbUUID' r result err)"
| "step r EvStop = Stop r"

fun run :: "rollbackMitigation \<Rightarrow> event list \<Rightarrow> halt + rollbackMitigation" where
  "run r [] = Inr r"
| "run r (ev # evs) = (case step r ev of Inl h \<Rightarrow> Inl h | Inr r' \<Rightarrow> run r' evs)"

text \<open>How often \<^verbatim>\<open>reconfigure\<close> was entered: it logs one line on entry, and only there.\<close>

definition reconfigureCount :: "rollbackMitigation \<Rightarrow> nat" where
  "reconfigureCount r = length (filter (\<lambda>l. l = LogDebug ''reconfigure triggerred'') (logs r))"

section \<open>Properties\<close>

subsection \<open>The two loops of getMinSeqNo\<close>

lemma firstPresent_all_absent:
  "(\<forall>x\<in>set xs. absent x) \<Longrightarrow> firstPresent k xs = -1"
  by (induction xs arbitrary: k) (auto simp: IsAbsent_def)

lemma firstPresent_found:
  "\<not> (\<forall>x\<in>set xs. absent x) \<Longrightarrow>
   \<exists>i. firstPresent k xs = int (k + i) \<and> i < length xs \<and> \<not> absent (xs ! i) \<and>
       (\<forall>j<i. absent (xs ! j))"
proof (induction xs arbitrary: k)
  case Nil
  then show ?case by simp
next
  case (Cons x xs)
  show ?case
  proof (cases "absent x")
    case False
    then have "firstPresent k (x # xs) = int (k + 0) \<and> 0 < length (x # xs) \<and>
        \<not> absent ((x # xs) ! 0) \<and> (\<forall>j<0. absent ((x # xs) ! j))"
      by (simp add: IsAbsent_def)
    then show ?thesis by blast
  next
    case True
    with Cons.prems have "\<not> (\<forall>y\<in>set xs. absent y)" by simp
    from Cons.IH [OF this, of "Suc k"] obtain i where
      i: "firstPresent (Suc k) xs = int (Suc k + i)" "i < length xs" "\<not> absent (xs ! i)"
         "\<forall>j<i. absent (xs ! j)" by blast
    have "\<forall>j<Suc i. absent ((x # xs) ! j)"
      using True i(4) by (auto simp: less_Suc_eq_0_disj)
    with i True have "firstPresent k (x # xs) = int (k + Suc i) \<and> Suc i < length (x # xs) \<and>
        \<not> absent ((x # xs) ! Suc i) \<and> (\<forall>j<Suc i. absent ((x # xs) ! j))"
      by (simp add: IsAbsent_def)
    then show ?thesis by blast
  qed
qed

lemma scanReplicas_agree:
  "\<forall>x\<in>set (filter (\<lambda>x. \<not> absent x) (drop idx replicas)). vbUUID x = u \<Longrightarrow>
   scanReplicas replicas idx u m =
     (Min (insert m (seqNo ` set (filter (\<lambda>x. \<not> absent x) (drop idx replicas)))), [])"
proof (induction replicas idx u m rule: scanReplicas.induct)
  case (1 replicas idx u m)
  show ?case
  proof (cases "idx < length replicas")
    case False
    then show ?thesis by (simp add: scanReplicas.simps)
  next
    case True
    then have d: "drop idx replicas = replicas ! idx # drop (idx + 1) replicas"
      by (simp add: Cons_nth_drop_Suc)
    show ?thesis
    proof (cases "absent (replicas ! idx)")
      case a: True
      have "scanReplicas replicas idx u m = scanReplicas replicas (idx + 1) u m"
        using True a by (subst scanReplicas.simps) (simp add: IsAbsent_def)
      also have "\<dots> = (Min (insert m (seqNo ` set (filter (\<lambda>x. \<not> absent x) (drop (idx + 1) replicas)))), [])"
        using "1.IH"(1) [OF True refl] a "1.prems" d by (simp add: IsAbsent_def)
      finally show ?thesis using d a by simp
    next
      case a: False
      have u: "vbUUID (replicas ! idx) = u" using "1.prems" d a by simp
      let ?m' = "if m > seqNo (replicas ! idx) then seqNo (replicas ! idx) else m"
      let ?S = "seqNo ` set (filter (\<lambda>x. \<not> absent x) (drop (idx + 1) replicas))"
      have "scanReplicas replicas idx u m = scanReplicas replicas (idx + 1) u ?m'"
        using True a u by (subst scanReplicas.simps) (simp add: IsAbsent_def)
      also have "\<dots> = (Min (insert ?m' ?S), [])"
        using "1.IH"(2) [OF True refl] a u "1.prems" d by (simp add: IsAbsent_def)
      also have "Min (insert ?m' ?S) = Min (insert m (insert (seqNo (replicas ! idx)) ?S))"
      proof -
        have "?m' = min m (seqNo (replicas ! idx))" by (auto simp: min_def)
        moreover have "finite ?S" by simp
        ultimately show ?thesis
          by (cases "?S = {}") (simp_all add: min.assoc)
      qed
      finally show ?thesis using d a by simp
    qed
  qed
qed

lemma scanReplicas_mismatch:
  "\<exists>j. idx \<le> j \<and> j < length replicas \<and> \<not> absent (replicas ! j) \<and> vbUUID (replicas ! j) \<noteq> u \<Longrightarrow>
   fst (scanReplicas replicas idx u m) = 0"
proof (induction replicas idx u m rule: scanReplicas.induct)
  case (1 replicas idx u m)
  from "1.prems" obtain j where j: "idx \<le> j" "j < length replicas" "\<not> absent (replicas ! j)"
    "vbUUID (replicas ! j) \<noteq> u" by blast
  then have lt: "idx < length replicas" by simp
  show ?case
  proof (cases "absent (replicas ! idx)")
    case True
    then have "j \<noteq> idx" using j by auto
    then have ex: "\<exists>j. idx + 1 \<le> j \<and> j < length replicas \<and> \<not> absent (replicas ! j) \<and> vbUUID (replicas ! j) \<noteq> u"
      using j by (intro exI [of _ j]) simp
    have "scanReplicas replicas idx u m = scanReplicas replicas (idx + 1) u m"
      using lt True by (subst scanReplicas.simps) (simp add: IsAbsent_def)
    then show ?thesis using "1.IH"(1) [OF lt refl _ ex] True by (simp add: IsAbsent_def)
  next
    case False
    show ?thesis
    proof (cases "vbUUID (replicas ! idx) = u")
      case ne: False
      then show ?thesis using lt False by (subst scanReplicas.simps) (auto simp: IsAbsent_def)
    next
      case eq: True
      then have "j \<noteq> idx" using j by auto
      then have ex: "\<exists>j. idx + 1 \<le> j \<and> j < length replicas \<and> \<not> absent (replicas ! j) \<and> vbUUID (replicas ! j) \<noteq> u"
        using j by (intro exI [of _ j]) simp
      let ?m' = "if m > seqNo (replicas ! idx) then seqNo (replicas ! idx) else m"
      have "scanReplicas replicas idx u m = scanReplicas replicas (idx + 1) u ?m'"
        using lt False eq by (subst scanReplicas.simps) (simp add: IsAbsent_def)
      then show ?thesis using "1.IH"(2) [OF lt refl _ _ ex] False eq by (simp add: IsAbsent_def)
    qed
  qed
qed

subsection \<open>The published minimum\<close>

lemma present_split:
  assumes "i < length xs" "\<not> absent (xs ! i)" "\<forall>j<i. absent (xs ! j)"
  shows "filter (\<lambda>x. \<not> absent x) xs = xs ! i # filter (\<lambda>x. \<not> absent x) (drop (Suc i) xs)"
proof -
  have "xs = take i xs @ xs ! i # drop (Suc i) xs"
    using assms(1) by (simp add: id_take_nth_drop)
  moreover have "filter (\<lambda>x. \<not> absent x) (take i xs) = []"
    using assms(1,3) by (auto simp: filter_empty_conv in_set_conv_nth)
  ultimately have "filter (\<lambda>x. \<not> absent x) xs =
      filter (\<lambda>x. \<not> absent x) (xs ! i # drop (Suc i) xs)"
    by (metis append_Nil filter_append)
  then show ?thesis using assms(2) by simp
qed

text \<open>
  Claim C9. When the replica vector of a vBucket has no slot that is not absent (every
  slot is marked absent, or no vector is stored under the id), \<^verbatim>\<open>getMinSeqNo\<close> returns 0
  and logs the error "all replicas absent".
\<close>

theorem getMinSeqNo_all_absent:
  assumes "Load (persistedSeqNos r) vbID = None \<or>
           (\<exists>replicas. Load (persistedSeqNos r) vbID = Some replicas \<and>
                        (\<forall>x\<in>set replicas. absent x))"
  shows "getMinSeqNo r vbID = (0, [LogError ''all replicas absent''])"
  using assms by (auto simp: getMinSeqNo_def firstPresent_all_absent)

text \<open>
  Claim C1. When the replica vector of a vBucket has a slot that is not absent and all
  such slots hold the same vbUUID, \<^verbatim>\<open>getMinSeqNo\<close> returns the least seqNo (as unsigned
  64-bit numbers) of the slots that are not absent, and logs nothing.
\<close>

theorem getMinSeqNo_convergent:
  assumes ld: "Load (persistedSeqNos r) vbID = Some replicas"
    and ne: "\<exists>x\<in>set replicas. \<not> absent x"
    and same: "\<forall>x\<in>set replicas. \<forall>y\<in>set replicas.
                 \<not> absent x \<longrightarrow> \<not> absent y \<longrightarrow> vbUUID x = vbUUID y"
  shows "getMinSeqNo r vbID =
           (Min (set (map seqNo (filter (\<lambda>x. \<not> absent x) replicas))), [])"
proof -
  from ne have "\<not> (\<forall>x\<in>set replicas. absent x)" by blast
  from firstPresent_found [OF this, of 0] obtain i where
    i: "firstPresent 0 replicas = int i" "i < length replicas" "\<not> absent (replicas ! i)"
       "\<forall>j<i. absent (replicas ! j)" by auto
  let ?rest = "filter (\<lambda>x. \<not> absent x) (drop (i + 1) replicas)"
  have split: "filter (\<lambda>x. \<not> absent x) replicas = replicas ! i # ?rest"
    using present_split [OF i(2,3,4)] by simp
  have "\<forall>x\<in>set ?rest. vbUUID x = vbUUID (replicas ! i)"
  proof
    fix x assume x: "x \<in> set ?rest"
    then have "x \<in> set replicas" "\<not> absent x" by (auto dest: in_set_dropD)
    moreover have "replicas ! i \<in> set replicas" using i(2) by simp
    ultimately show "vbUUID x = vbUUID (replicas ! i)" using same i(3) by blast
  qed
  from scanReplicas_agree [OF this, of "seqNo (replicas ! i)"]
  have "getMinSeqNo r vbID = (Min (insert (seqNo (replicas ! i)) (seqNo ` set ?rest)), [])"
    using ld i(1) by (simp add: getMinSeqNo_def)
  then show ?thesis by (simp add: split)
qed

text \<open>
  Claim C2. When two slots of the replica vector of a vBucket are not absent and hold
  different vbUUIDs, \<^verbatim>\<open>getMinSeqNo\<close> returns 0.
\<close>

theorem getMinSeqNo_divergent:
  assumes ld: "Load (persistedSeqNos r) vbID = Some replicas"
    and div: "\<exists>i j. i < length replicas \<and> j < length replicas \<and>
                \<not> absent (replicas ! i) \<and> \<not> absent (replicas ! j) \<and>
                vbUUID (replicas ! i) \<noteq> vbUUID (replicas ! j)"
  shows "fst (getMinSeqNo r vbID) = 0"
proof -
  from div obtain a b where ab: "a < length replicas" "b < length replicas"
    "\<not> absent (replicas ! a)" "\<not> absent (replicas ! b)"
    "vbUUID (replicas ! a) \<noteq> vbUUID (replicas ! b)" by blast
  then have "\<not> (\<forall>x\<in>set replicas. absent x)" by auto
  from firstPresent_found [OF this, of 0] obtain k where
    k: "firstPresent 0 replicas = int k" "k < length replicas" "\<not> absent (replicas ! k)"
       "\<forall>j<k. absent (replicas ! j)" by auto
  have "\<exists>j. k + 1 \<le> j \<and> j < length replicas \<and> \<not> absent (replicas ! j) \<and>
            vbUUID (replicas ! j) \<noteq> vbUUID (replicas ! k)"
  proof (cases "vbUUID (replicas ! a) = vbUUID (replicas ! k)")
    case True
    then have "vbUUID (replicas ! b) \<noteq> vbUUID (replicas ! k)" using ab(5) by simp
    moreover from this have "b \<noteq> k" by auto
    moreover have "\<not> b < k" using k(4) ab(4) by blast
    ultimately show ?thesis using ab(2,4) by (intro exI [of _ b]) simp
  next
    case False
    moreover from this have "a \<noteq> k" by auto
    moreover have "\<not> a < k" using k(4) ab(3) by blast
    ultimately show ?thesis using ab(1,3) by (intro exI [of _ a]) simp
  qed
  from scanReplicas_mismatch [OF this, of "seqNo (replicas ! k)"]
  show ?thesis using ld k(1) by (simp add: getMinSeqNo_def)
qed


theorem getMinSeqNo_all_absent_witness:
  "getMinSeqNo (NewRollbackMitigation [9]\<lparr>persistedSeqNos :=
       [(9, [\<lparr>vbUUID = 0xAAAA, seqNo = 100, absent = True\<rparr>,
             \<lparr>vbUUID = 0, seqNo = 0, absent = True\<rparr>])]\<rparr>) 9
     = (0, [LogError ''all replicas absent''])
   \<and> getMinSeqNo (NewRollbackMitigation [9]) 7 = (0, [LogError ''all replicas absent''])"
proof -
  let ?r = "NewRollbackMitigation [9]\<lparr>persistedSeqNos :=
       [(9, [\<lparr>vbUUID = 0xAAAA, seqNo = 100, absent = True\<rparr>,
             \<lparr>vbUUID = 0, seqNo = 0, absent = True\<rparr>])]\<rparr>"
  have a: "Load (persistedSeqNos ?r) 9 = None \<or>
           (\<exists>replicas. Load (persistedSeqNos ?r) 9 = Some replicas \<and>
                        (\<forall>x\<in>set replicas. absent x))"
    by (simp add: Load_def)
  have b: "Load (persistedSeqNos (NewRollbackMitigation [9])) 7 = None \<or>
           (\<exists>replicas. Load (persistedSeqNos (NewRollbackMitigation [9])) 7 = Some replicas \<and>
                        (\<forall>x\<in>set replicas. absent x))"
    by (simp add: Load_def NewRollbackMitigation_def)
  show ?thesis
    using getMinSeqNo_all_absent [OF a] getMinSeqNo_all_absent [OF b] by simp
qed

theorem getMinSeqNo_convergent_witness:
  "getMinSeqNo (NewRollbackMitigation [42]\<lparr>persistedSeqNos :=
       [(42, [\<lparr>vbUUID = 0xBBBB, seqNo = 5, absent = True\<rparr>,
              \<lparr>vbUUID = 0xAAAA, seqNo = 120, absent = False\<rparr>,
              \<lparr>vbUUID = 0xAAAA, seqNo = 100, absent = False\<rparr>,
              \<lparr>vbUUID = 0xAAAA, seqNo = 110, absent = False\<rparr>])]\<rparr>) 42
     = (100, [])"
proof -
  let ?replicas = "[\<lparr>vbUUID = 0xBBBB, seqNo = 5, absent = True\<rparr>,
              \<lparr>vbUUID = 0xAAAA, seqNo = 120, absent = False\<rparr>,
              \<lparr>vbUUID = 0xAAAA, seqNo = 100, absent = False\<rparr>,
              \<lparr>vbUUID = 0xAAAA, seqNo = 110, absent = False\<rparr>] :: vbUUIDAndSeqNo list"
  let ?r = "NewRollbackMitigation [42]\<lparr>persistedSeqNos := [(42, ?replicas)]\<rparr>"
  have a: "Load (persistedSeqNos ?r) 42 = Some ?replicas"
    by (simp add: Load_def)
  have b: "\<exists>x\<in>set ?replicas. \<not> absent x"
    by simp
  have c: "\<forall>x\<in>set ?replicas. \<forall>y\<in>set ?replicas.
             \<not> absent x \<longrightarrow> \<not> absent y \<longrightarrow> vbUUID x = vbUUID y"
    by simp
  show ?thesis
    using getMinSeqNo_convergent [OF a b c] by simp
qed

theorem getMinSeqNo_divergent_witness:
  "fst (getMinSeqNo (NewRollbackMitigation [42]\<lparr>persistedSeqNos :=
       [(42, [\<lparr>vbUUID = 0xAAAA, seqNo = 100, absent = False\<rparr>,
              \<lparr>vbUUID = 0xBBBB, seqNo = 200, absent = False\<rparr>,
              \<lparr>vbUUID = 0, seqNo = 0, absent = False\<rparr>])]\<rparr>) 42) = 0"
proof -
  let ?replicas = "[\<lparr>vbUUID = 0xAAAA, seqNo = 100, absent = False\<rparr>,
              \<lparr>vbUUID = 0xBBBB, seqNo = 200, absent = False\<rparr>,
              \<lparr>vbUUID = 0, seqNo = 0, absent = False\<rparr>] :: vbUUIDAndSeqNo list"
  let ?r = "NewRollbackMitigation [42]\<lparr>persistedSeqNos := [(42, ?replicas)]\<rparr>"
  have a: "Load (persistedSeqNos ?r) 42 = Some ?replicas"
    by (simp add: Load_def)
  have "0 < length ?replicas \<and> 1 < length ?replicas \<and>
        \<not> absent (?replicas ! 0) \<and> \<not> absent (?replicas ! 1) \<and>
        vbUUID (?replicas ! 0) \<noteq> vbUUID (?replicas ! 1)"
    by simp
  then have b: "\<exists>i j. i < length ?replicas \<and> j < length ?replicas \<and>
                \<not> absent (?replicas ! i) \<and> \<not> absent (?replicas ! j) \<and>
                vbUUID (?replicas ! i) \<noteq> vbUUID (?replicas ! j)"
    by blast
  show ?thesis
    using getMinSeqNo_divergent [OF a b] by simp
qed

subsection \<open>Snapshot versions and observe callbacks\<close>

text \<open>
  Claim C4. With a snapshot \<open>old\<close> installed, \<^verbatim>\<open>isConfigSnapshotNewerThan\<close> is true of \<open>new\<close>
  exactly when the epoch of \<open>new\<close> is greater, or the epochs are equal and the revision
  of \<open>new\<close> is greater (as signed 64-bit numbers); two equal versions compare false.
\<close>

theorem isConfigSnapshotNewerThan_strict:
  assumes "configSnapshot r = Some old"
  shows "isConfigSnapshotNewerThan r (Some new) =
           Inr (sint (revEpoch old) < sint (revEpoch new) \<or>
                (revEpoch new = revEpoch old \<and> sint (revID old) < sint (revID new)))
         \<and> (revEpoch new = revEpoch old \<and> revID new = revID old \<longrightarrow>
              isConfigSnapshotNewerThan r (Some new) = Inr False)"
  using assms
  by (auto simp: isConfigSnapshotNewerThan_def getRevEpochAndID_def word_sless_alt
       word_eq_iff_signed [where ?'a = int])

theorem isConfigSnapshotNewerThan_strict_witness:
  "isConfigSnapshotNewerThan
     (NewRollbackMitigation [42]\<lparr>configSnapshot :=
        Some \<lparr>revEpoch = 2, revID = 5, NumReplicas = Inr 2, VbucketToServer = (\<lambda>vb idx. Inr 0)\<rparr>\<rparr>)
     (Some \<lparr>revEpoch = 2, revID = 4, NumReplicas = Inr 2, VbucketToServer = (\<lambda>vb idx. Inr 0)\<rparr>)
   = Inr False
   \<and> isConfigSnapshotNewerThan
     (NewRollbackMitigation [42]\<lparr>configSnapshot :=
        Some \<lparr>revEpoch = 2, revID = 5, NumReplicas = Inr 2, VbucketToServer = (\<lambda>vb idx. Inr 0)\<rparr>\<rparr>)
     (Some \<lparr>revEpoch = 2, revID = -1, NumReplicas = Inr 2, VbucketToServer = (\<lambda>vb idx. Inr 0)\<rparr>)
   = Inr False"
  using isConfigSnapshotNewerThan_strict [of
      "NewRollbackMitigation [42]\<lparr>configSnapshot :=
        Some \<lparr>revEpoch = 2, revID = 5, NumReplicas = Inr 2, VbucketToServer = (\<lambda>vb idx. Inr 0)\<rparr>\<rparr>"
      "\<lparr>revEpoch = 2, revID = 5, NumReplicas = Inr 2, VbucketToServer = (\<lambda>vb idx. Inr 0)\<rparr>"
      "\<lparr>revEpoch = 2, revID = 4, NumReplicas = Inr 2, VbucketToServer = (\<lambda>vb idx. Inr 0)\<rparr>"]
    isConfigSnapshotNewerThan_strict [of
      "NewRollbackMitigation [42]\<lparr>configSnapshot :=
        Some \<lparr>revEpoch = 2, revID = 5, NumReplicas = Inr 2, VbucketToServer = (\<lambda>vb idx. Inr 0)\<rparr>\<rparr>"
      "\<lparr>revEpoch = 2, revID = 5, NumReplicas = Inr 2, VbucketToServer = (\<lambda>vb idx. Inr 0)\<rparr>"
      "\<lparr>revEpoch = 2, revID = -1, NumReplicas = Inr 2, VbucketToServer = (\<lambda>vb idx. Inr 0)\<rparr>"]
  by (simp add: NewRollbackMitigation_def)

text \<open>
  Claim C3. An observe callback delivered when the subsystem is closed, or under a
  groupID that is not the active one, returns without writing a slot, without
  publishing an event and without updating the vbUUIDMap.
\<close>

theorem observe_callback_stale:
  assumes "closed r \<or> activeGroupID r \<noteq> groupID"
  shows "\<exists>r'. observe_callback vbID replica groupID vbUUID' r result err = Inr r' \<and>
           persistedSeqNos r' = persistedSeqNos r \<and>
           published r' = published r \<and>
           vbUUIDMap r' = vbUUIDMap r \<and>
           r' = r\<lparr>logs := logs r @
                  [LogDebug ''closed(%v) or groupID(%v!=%v) changed on observe'']\<rparr>"
  using assms by (auto simp: observe_callback_def)

theorem observe_callback_stale_witness:
  "\<exists>r'. observe_callback 42 1 1 0xAAAA
          (NewRollbackMitigation [42]\<lparr>activeGroupID := 2,
             persistedSeqNos := [(42, [zeroReplica, zeroReplica])]\<rparr>)
          (Some \<lparr>res_PersistSeqNo = 100, res_VbUUID = 0xBBBB\<rparr>) None = Inr r' \<and>
        persistedSeqNos r' = [(42, [zeroReplica, zeroReplica])] \<and>
        published r' = [] \<and> vbUUIDMap r' = []"
proof -
  let ?r = "NewRollbackMitigation [42]\<lparr>activeGroupID := 2,
             persistedSeqNos := [(42, [zeroReplica, zeroReplica])]\<rparr>"
  have stale: "closed ?r \<or> activeGroupID ?r \<noteq> 1"
    by simp
  show ?thesis
    using observe_callback_stale [OF stale, of 42 1 "0xAAAA"
        "Some \<lparr>res_PersistSeqNo = 100, res_VbUUID = 0xBBBB\<rparr>" None]
    by (simp add: NewRollbackMitigation_def)
qed

text \<open>
  Claim C6, amended. An observe callback delivered under the current generation with
  an error, while the subsystem is not closed: a temporary failure returns without
  writing a slot, without publishing and without touching the vbUUID map, with one
  error line logged; any other error panics with that error. Once the subsystem is
  closed, the callback returns at the guard with one debug line whatever the error
  is, also under the current generation: \<^verbatim>\<open>Stop\<close> sets \<^verbatim>\<open>closed\<close> and leaves
  \<^verbatim>\<open>activeGroupID\<close> alone.
\<close>

theorem observe_callback_error:
  assumes "activeGroupID r = groupID"
  shows "(\<not> closed r \<and> errors_Is e ErrTemporaryFailure \<longrightarrow>
            (\<exists>r'. observe_callback vbID replica groupID vbUUID' r result (Some e) = Inr r' \<and>
               persistedSeqNos r' = persistedSeqNos r \<and> published r' = published r \<and>
               vbUUIDMap r' = vbUUIDMap r \<and>
               r' = r\<lparr>logs := logs r @ [LogError ''error while observe: %v'']\<rparr>))
       \<and> (\<not> closed r \<and> \<not> errors_Is e ErrTemporaryFailure \<longrightarrow>
            observe_callback vbID replica groupID vbUUID' r result (Some e) = Inl (PanicErr e))
       \<and> (closed r \<longrightarrow>
            observe_callback vbID replica groupID vbUUID' r result (Some e) =
              Inr (r\<lparr>logs := logs r @
                     [LogDebug ''closed(%v) or groupID(%v!=%v) changed on observe'']\<rparr>))"
  using assms by (auto simp: observe_callback_def)

theorem observe_callback_error_witness:
  "(\<exists>r'. observe_callback 42 1 2 0xAAAA
          (NewRollbackMitigation [42]\<lparr>activeGroupID := 2,
             persistedSeqNos := [(42, [zeroReplica, zeroReplica])]\<rparr>)
          None (Some (Wrapped ''observe'' ErrTemporaryFailure)) = Inr r' \<and>
        persistedSeqNos r' = [(42, [zeroReplica, zeroReplica])] \<and>
        published r' = [] \<and> vbUUIDMap r' = [])
   \<and> observe_callback 42 1 2 0xAAAA
          (NewRollbackMitigation [42]\<lparr>activeGroupID := 2,
             persistedSeqNos := [(42, [zeroReplica, zeroReplica])]\<rparr>)
          None (Some (ErrOther ''shutdown'')) = Inl (PanicErr (ErrOther ''shutdown''))
   \<and> (\<exists>r'. observe_callback 42 1 2 0xAAAA
          (NewRollbackMitigation [42]\<lparr>activeGroupID := 2, closed := True,
             persistedSeqNos := [(42, [zeroReplica, zeroReplica])]\<rparr>)
          None (Some (ErrOther ''shutdown'')) = Inr r' \<and>
        persistedSeqNos r' = [(42, [zeroReplica, zeroReplica])] \<and>
        published r' = [] \<and> vbUUIDMap r' = [])"
proof -
  let ?r = "NewRollbackMitigation [42]\<lparr>activeGroupID := 2,
             persistedSeqNos := [(42, [zeroReplica, zeroReplica])]\<rparr>"
  let ?c = "NewRollbackMitigation [42]\<lparr>activeGroupID := 2, closed := True,
             persistedSeqNos := [(42, [zeroReplica, zeroReplica])]\<rparr>"
  have opened: "\<not> closed ?r"
    by (simp add: NewRollbackMitigation_def)
  have current: "activeGroupID ?r = 2" "activeGroupID ?c = 2"
    by simp_all
  have shut: "closed ?c"
    by simp
  show ?thesis
    using observe_callback_error [OF current(1), of "Wrapped ''observe'' ErrTemporaryFailure"
        42 1 "0xAAAA" None]
      observe_callback_error [OF current(1), of "ErrOther ''shutdown''" 42 1 "0xAAAA" None]
      observe_callback_error [OF current(2), of "ErrOther ''shutdown''" 42 1 "0xAAAA" None]
      opened
    by (simp add: NewRollbackMitigation_def)
qed

text \<open>
  A callback of the current generation with an error that is not a temporary failure,
  and no panic. Start runs the first reconfigure (generation 1), the observer installs
  its ticker and its first tick issues the observe request for replica 0 of vBucket 42
  under generation 1. Stop sets closed and leaves activeGroupID at 1. The request's
  callback then arrives with a shutdown error: its groupID is the current generation,
  yet the guard at line 271 returns with one debug line and line 281 is not reached.
\<close>

theorem observe_callback_closed_counterexample:
  "\<exists>s. run (NewRollbackMitigation [42])
          [EvStart (Inr \<lparr>revEpoch = 2, revID = 5, NumReplicas = Inr 0,
                          VbucketToServer = (\<lambda>vb idx. Inr 0)\<rparr>),
           EvStartObserve (\<lambda>vb. Inr [\<lparr>fe_VbUUID = 0xAAAA, fe_SeqNo = 0\<rparr>]),
           EvObserveTick 1 (\<lambda>opts. None),
           EvStop] = Inr s \<and>
        closed s \<and> activeGroupID s = 1 \<and>
        observeRequests s = [\<lparr>optVbID = 42, optReplicaIdx = 0, optVbUUID = 0xAAAA\<rparr>] \<and>
        \<not> errors_Is (ErrOther ''shutdown'') ErrTemporaryFailure \<and>
        observe_callback 42 0 1 0xAAAA s None (Some (ErrOther ''shutdown'')) =
          Inr (s\<lparr>logs := logs s @
                 [LogDebug ''closed(%v) or groupID(%v!=%v) changed on observe'']\<rparr>) \<and>
        step s (EvObserveCallback 42 0 1 0xAAAA None (Some (ErrOther ''shutdown''))) =
          Inr (s\<lparr>logs := logs s @
                 [LogDebug ''closed(%v) or groupID(%v!=%v) changed on observe'']\<rparr>)"
  by (simp add: Start_def configWatch_def isConfigSnapshotNewerThan_def getRevEpochAndID_def
       Stop_def Load_def zeroReplica_def raised_def startObserve_setup_def loadVbUUIDMap_def
       startObserve_tick_def observe_def observeVbID_def observe_callback_def IsAbsent_def
       reconfigure_def reset_def markAbsentInstances_def NewRollbackMitigation_def
       Store_def CreateConcurrentSwissMap_def markSlot_def word_sless_alt Let_def)

subsection \<open>The failover logs\<close>


lemma loadVbUUIDMap_range_total:
  "\<forall>vbID\<in>fst ` set m. \<exists>newest older. gfl vbID = Inr (newest # older) \<Longrightarrow>
   \<exists>r'. loadVbUUIDMap_range gfl m r = Inr r'"
proof (induction m arbitrary: r)
  case Nil
  then show ?case by simp
next
  case (Cons p m)
  obtain vbID replicas where p: "p = (vbID, replicas)" by (cases p)
  from Cons.prems p obtain newest older where g: "gfl vbID = Inr (newest # older)"
    by auto
  have "\<forall>vbID\<in>fst ` set m. \<exists>newest older. gfl vbID = Inr (newest # older)"
    using Cons.prems by simp
  from Cons.IH [OF this] show ?case using p g by simp
qed

lemma loadVbUUIDMap_range_empty_log:
  "\<forall>vbID\<in>fst ` set m. \<exists>failoverLogs. gfl vbID = Inr failoverLogs \<Longrightarrow>
   \<exists>vbID\<in>fst ` set m. gfl vbID = Inr [] \<Longrightarrow>
   loadVbUUIDMap_range gfl m r = Inl PanicIndexOutOfRange"
proof (induction m arbitrary: r)
  case Nil
  then show ?case by simp
next
  case (Cons p m)
  obtain vbID replicas where p: "p = (vbID, replicas)" by (cases p)
  from Cons.prems(1) p obtain failoverLogs where g: "gfl vbID = Inr failoverLogs"
    by auto
  show ?case
  proof (cases failoverLogs)
    case Nil
    then show ?thesis using p g by simp
  next
    case (Cons newest older)
    then have "\<exists>k\<in>fst ` set m. gfl k = Inr []"
      using Cons.prems(2) p g by auto
    moreover have "\<forall>k\<in>fst ` set m. \<exists>failoverLogs. gfl k = Inr failoverLogs"
      using Cons.prems(1) by simp
    ultimately show ?thesis
      using Cons.IH p g Cons by simp
  qed
qed

text \<open>
  Claim C10. \<^verbatim>\<open>loadVbUUIDMap\<close> reads \<^verbatim>\<open>failoverLogs[0]\<close> without checking that the list
  is not empty. When every call of \<^verbatim>\<open>GetFailoverLogs\<close> succeeds, an empty list for some
  vBucket makes \<^verbatim>\<open>loadVbUUIDMap\<close>, and with it the start of the observer, panic with an
  index out of range; when no list is empty, \<^verbatim>\<open>loadVbUUIDMap\<close> returns.
\<close>

theorem loadVbUUIDMap_empty_failover_log:
  assumes "\<forall>vbID\<in>fst ` set (persistedSeqNos r). \<exists>failoverLogs. GetFailoverLogs vbID = Inr failoverLogs"
  shows "((\<exists>vbID\<in>fst ` set (persistedSeqNos r). GetFailoverLogs vbID = Inr []) \<longrightarrow>
            loadVbUUIDMap r GetFailoverLogs = Inl PanicIndexOutOfRange \<and>
            startObserve_setup r GetFailoverLogs = Inl PanicIndexOutOfRange)
       \<and> ((\<forall>vbID\<in>fst ` set (persistedSeqNos r). GetFailoverLogs vbID \<noteq> Inr []) \<longrightarrow>
            (\<exists>r'. loadVbUUIDMap r GetFailoverLogs = Inr r'))"
proof (intro conjI impI)
  assume e: "\<exists>vbID\<in>fst ` set (persistedSeqNos r). GetFailoverLogs vbID = Inr []"
  show "loadVbUUIDMap r GetFailoverLogs = Inl PanicIndexOutOfRange"
    unfolding loadVbUUIDMap_def by (rule loadVbUUIDMap_range_empty_log [OF assms e])
  have "loadVbUUIDMap_range GetFailoverLogs (persistedSeqNos r)
          (r\<lparr>vbUUIDMap := CreateConcurrentSwissMap\<rparr>) = Inl PanicIndexOutOfRange"
    by (rule loadVbUUIDMap_range_empty_log [OF assms e])
  then show "startObserve_setup r GetFailoverLogs = Inl PanicIndexOutOfRange"
    by (simp add: startObserve_setup_def loadVbUUIDMap_def)
next
  assume ne: "\<forall>vbID\<in>fst ` set (persistedSeqNos r). GetFailoverLogs vbID \<noteq> Inr []"
  have "\<forall>vbID\<in>fst ` set (persistedSeqNos r). \<exists>newest older. GetFailoverLogs vbID = Inr (newest # older)"
  proof
    fix vbID assume v: "vbID \<in> fst ` set (persistedSeqNos r)"
    with assms obtain l where l: "GetFailoverLogs vbID = Inr l" by blast
    with ne v have "l \<noteq> []" by auto
    then show "\<exists>newest older. GetFailoverLogs vbID = Inr (newest # older)"
      using l by (cases l) auto
  qed
  then show "\<exists>r'. loadVbUUIDMap r GetFailoverLogs = Inr r'"
    unfolding loadVbUUIDMap_def by (rule loadVbUUIDMap_range_total)
qed

theorem loadVbUUIDMap_empty_failover_log_witness:
  "loadVbUUIDMap
     (NewRollbackMitigation [7, 9]\<lparr>persistedSeqNos := [(7, [zeroReplica]), (9, [zeroReplica])]\<rparr>)
     (\<lambda>vbID. if vbID = 9 then Inr [] else Inr [\<lparr>fe_VbUUID = 0xAAAA, fe_SeqNo = 0\<rparr>])
     = Inl PanicIndexOutOfRange
   \<and> (\<exists>r'. loadVbUUIDMap
     (NewRollbackMitigation [7, 9]\<lparr>persistedSeqNos := [(7, [zeroReplica]), (9, [zeroReplica])]\<rparr>)
     (\<lambda>vbID. Inr [\<lparr>fe_VbUUID = 0xAAAA, fe_SeqNo = 0\<rparr>]) = Inr r')"
proof -
  let ?r = "NewRollbackMitigation [7, 9]\<lparr>persistedSeqNos := [(7, [zeroReplica]), (9, [zeroReplica])]\<rparr>"
  let ?bad = "\<lambda>vbID :: vbid. if vbID = 9 then Inr [] else (Inr [\<lparr>fe_VbUUID = 0xAAAA, fe_SeqNo = 0\<rparr>] :: err + FailoverEntry list)"
  let ?good = "\<lambda>vbID :: vbid. (Inr [\<lparr>fe_VbUUID = 0xAAAA, fe_SeqNo = 0\<rparr>] :: err + FailoverEntry list)"
  have a: "\<forall>vbID\<in>fst ` set (persistedSeqNos ?r). \<exists>failoverLogs. ?bad vbID = Inr failoverLogs"
    by simp
  have b: "\<forall>vbID\<in>fst ` set (persistedSeqNos ?r). \<exists>failoverLogs. ?good vbID = Inr failoverLogs"
    by simp
  show ?thesis
    using loadVbUUIDMap_empty_failover_log [OF a] loadVbUUIDMap_empty_failover_log [OF b]
    by simp
qed

subsection \<open>What reconfigure changes\<close>

lemma markSlot_cases:
  "markSlot cs vbID idx replica = (e, replica', lg) \<Longrightarrow>
     lg = [] \<or> lg = [LogDebug ''invalid replica of vbId: %v, replica: %v, err: %v''] \<or>
     lg = [LogDebug ''invalid server index of vbId: %v, replica: %v, serverIndex: %v'']"
  by (auto simp: markSlot_def split: sum.splits if_splits)

lemma markSlot_quiet:
  "markSlot cs vbID idx replica = (e, replica', lg) \<Longrightarrow>
     filter (\<lambda>l. l = LogDebug ''reconfigure triggerred'') lg = []"
  by (drule markSlot_cases) auto

lemma markReplicas_quiet:
  "markReplicas cs vbID idx replicas = (e, replicas', lg) \<Longrightarrow>
     filter (\<lambda>l. l = LogDebug ''reconfigure triggerred'') lg = []"
proof (induction replicas arbitrary: idx e replicas' lg)
  case Nil
  then show ?case by simp
next
  case (Cons replica rest)
  obtain e1 x1 lg1 where s: "markSlot cs vbID idx replica = (e1, x1, lg1)"
    by (cases "markSlot cs vbID idx replica") auto
  note q1 = markSlot_quiet [OF s]
  show ?case
  proof (cases e1)
    case (Some err)
    then show ?thesis using Cons.prems s q1 by simp
  next
    case None
    obtain e2 x2 lg2 where t: "markReplicas cs vbID (Suc idx) rest = (e2, x2, lg2)"
      by (cases "markReplicas cs vbID (Suc idx) rest") auto
    from Cons.IH [OF t] Cons.prems s None t q1 show ?thesis by auto
  qed
qed

lemma markEntries_quiet:
  "markEntries cs m = (e, m', lg) \<Longrightarrow>
     filter (\<lambda>l. l = LogDebug ''reconfigure triggerred'') lg = []"
proof (induction m arbitrary: e m' lg)
  case Nil
  then show ?case by simp
next
  case (Cons p rest)
  obtain vbID replicas where p: "p = (vbID, replicas)" by (cases p)
  obtain e1 x1 lg1 where s: "markReplicas cs vbID 0 replicas = (e1, x1, lg1)"
    by (cases "markReplicas cs vbID 0 replicas") auto
  note q1 = markReplicas_quiet [OF s]
  show ?case
  proof (cases e1)
    case (Some err)
    then show ?thesis using Cons.prems s q1 p by simp
  next
    case None
    obtain e2 x2 lg2 where t: "markEntries cs rest = (e2, x2, lg2)"
      by (cases "markEntries cs rest") auto
    from Cons.IH [OF t] Cons.prems s None t q1 p show ?thesis by auto
  qed
qed

lemma reset_frame:
  "reset r = Inr r' \<Longrightarrow>
     activeGroupID r' = activeGroupID r \<and> logs r' = logs r \<and>
     configSnapshot r' = configSnapshot r \<and> vbIds r' = vbIds r \<and>
     observeTimer r' = observeTimer r \<and> observers r' = observers r"
  by (auto simp: reset_def split: option.splits sum.splits if_splits)

lemma reset_halt:
  "reset r = Inl h \<Longrightarrow>
     \<exists>p r'. h = Panic p r' \<and> activeGroupID r' = activeGroupID r \<and> logs r' = logs r"
  by (auto simp: reset_def split: option.splits sum.splits if_splits)

lemma markAbsentInstances_frame:
  "markAbsentInstances r = Inr (e, r') \<Longrightarrow>
     activeGroupID r' = activeGroupID r \<and> configSnapshot r' = configSnapshot r \<and>
     reconfigureCount r' = reconfigureCount r"
  by (auto simp: markAbsentInstances_def reconfigureCount_def
      split: option.splits if_splits prod.splits dest: markEntries_quiet)

lemma markAbsentInstances_halt:
  "markAbsentInstances r = Inl h \<Longrightarrow> h = Panic PanicNilDereference r"
  by (auto simp: markAbsentInstances_def split: option.splits if_splits prod.splits)

lemma reconfigure_blocked:
  "observeTimer r \<and> observers r = 0 \<Longrightarrow>
     reconfigure r = Inl (Blocked (r\<lparr>logs := logs r @ [LogDebug ''reconfigure triggerred'']\<rparr>))"
  by (simp add: reconfigure_def Let_def)

lemma reconfigure_unfold:
  "\<not> (observeTimer r \<and> observers r = 0) \<Longrightarrow>
   reconfigure r =
     (case reset
        (r\<lparr>observers := (if observeTimer r then observers r - 1 else observers r),
           activeGroupID := activeGroupID r + 1,
           logs := logs r @ LogDebug ''reconfigure triggerred'' #
                  (if observeTimer r
                   then [LogDebug ''observe close triggered'', LogDebug ''observe close done'']
                   else []) @
                  [LogInfo ''new cluster config received, groupId = %v'']\<rparr>) of
        Inl h \<Rightarrow> Inl h
      | Inr r5 \<Rightarrow>
          (case markAbsentInstances r5 of Inl h \<Rightarrow> Inl h
           | Inr (Some err, r6) \<Rightarrow> Inl (Panic (PanicErr err) r6)
           | Inr (None, r6) \<Rightarrow> Inr (r6\<lparr>observers := observers r6 + 1\<rparr>)))"
  by (cases "observeTimer r") (simp_all add: reconfigure_def Let_def)

lemma reconfigure_past_handshake:
  assumes h: "\<not> (observeTimer r \<and> observers r = 0)"
  shows "\<exists>r'. (reconfigure r = Inr r' \<or> (\<exists>p. reconfigure r = Inl (Panic p r'))) \<and>
           activeGroupID r' = activeGroupID r + 1 \<and>
           reconfigureCount r' = Suc (reconfigureCount r)"
proof -
  let ?r4 = "r\<lparr>observers := (if observeTimer r then observers r - 1 else observers r),
           activeGroupID := activeGroupID r + 1,
           logs := logs r @ LogDebug ''reconfigure triggerred'' #
                  (if observeTimer r
                   then [LogDebug ''observe close triggered'', LogDebug ''observe close done'']
                   else []) @
                  [LogInfo ''new cluster config received, groupId = %v'']\<rparr>"
  note u = reconfigure_unfold [OF h]
  have c4: "reconfigureCount ?r4 = Suc (reconfigureCount r)" "activeGroupID ?r4 = activeGroupID r + 1"
    by (simp_all add: reconfigureCount_def)
  show ?thesis
  proof (cases "reset ?r4")
    case (Inl hl)
    from reset_halt [OF Inl] obtain p r' where "hl = Panic p r'"
      "activeGroupID r' = activeGroupID ?r4" "logs r' = logs ?r4" by blast
    moreover from this have "reconfigureCount r' = reconfigureCount ?r4"
      by (simp only: reconfigureCount_def)
    ultimately show ?thesis using u Inl c4 by auto
  next
    case (Inr r5)
    from reset_frame [OF Inr] have f5: "activeGroupID r5 = activeGroupID ?r4" "logs r5 = logs ?r4"
      by simp_all
    then have c5: "reconfigureCount r5 = reconfigureCount ?r4" by (simp only: reconfigureCount_def)
    show ?thesis
    proof (cases "markAbsentInstances r5")
      case (Inl hl)
      from markAbsentInstances_halt [OF Inl] have "hl = Panic PanicNilDereference r5" .
      then show ?thesis using u Inr Inl f5 c5 c4 by auto
    next
      case mr: (Inr pr)
      obtain e r6 where pr: "pr = (e, r6)" by (cases pr)
      from markAbsentInstances_frame [OF mr [unfolded pr]]
      have f6: "activeGroupID r6 = activeGroupID r5" "reconfigureCount r6 = reconfigureCount r5"
        by simp_all
      show ?thesis
      proof (cases e)
        case None
        then have "reconfigure r = Inr (r6\<lparr>observers := observers r6 + 1\<rparr>)"
          using u Inr mr pr by simp
        moreover have "reconfigureCount (r6\<lparr>observers := observers r6 + 1\<rparr>) = reconfigureCount r6"
          by (simp add: reconfigureCount_def)
        ultimately show ?thesis using f6 f5 c5 c4 by auto
      next
        case (Some err)
        then have "reconfigure r = Inl (Panic (PanicErr err) r6)"
          using u Inr mr pr by simp
        then show ?thesis using f6 f5 c5 c4 by auto
      qed
    qed
  qed
qed


lemma reconfigure_halts:
  assumes "reconfigure r = Inl h"
  shows "(observeTimer r \<and> observers r = 0 \<and>
            h = Blocked (r\<lparr>logs := logs r @ [LogDebug ''reconfigure triggerred'']\<rparr>)) \<or>
         (\<not> (observeTimer r \<and> observers r = 0) \<and>
            (\<exists>p r'. h = Panic p r' \<and> activeGroupID r' = activeGroupID r + 1 \<and>
               reconfigureCount r' = Suc (reconfigureCount r)))"
proof (cases "observeTimer r \<and> observers r = 0")
  case True
  with assms reconfigure_blocked [OF True] show ?thesis by simp
next
  case False
  from reconfigure_past_handshake [OF False] assms show ?thesis using False by auto
qed

subsection \<open>The config watcher\<close>





subsection \<open>Marking absent replicas\<close>

lemma markSlot_None:
  "fst (markSlot cs vbID idx x) = None \<longleftrightarrow>
     (\<forall>err. VbucketToServer cs vbID (of_nat idx) = Inl err \<longrightarrow> errors_Is err ErrInvalidReplica)"
  by (auto simp: markSlot_def split: sum.splits)

lemma markSlot_Some:
  "fst (markSlot cs vbID idx x) = Some err \<Longrightarrow>
     VbucketToServer cs vbID (of_nat idx) = Inl err \<and> \<not> errors_Is err ErrInvalidReplica \<and>
     fst (snd (markSlot cs vbID idx x)) = x"
  by (auto simp: markSlot_def split: sum.splits if_splits)

lemma markSlot_slot:
  "fst (markSlot cs vbID idx x) = None \<Longrightarrow>
     fst (snd (markSlot cs vbID idx x)) =
       (if (case VbucketToServer cs vbID (of_nat idx) of
              Inl err \<Rightarrow> errors_Is err ErrInvalidReplica | Inr serverIndex \<Rightarrow> serverIndex < 0)
        then SetAbsent x else x)"
  by (auto simp: markSlot_def split: sum.splits if_splits)

lemma markReplicas_Cons:
  "markReplicas cs vbID k (x # rs) =
     (case fst (markSlot cs vbID k x) of
        Some err \<Rightarrow> (Some err, fst (snd (markSlot cs vbID k x)) # rs, snd (snd (markSlot cs vbID k x)))
      | None \<Rightarrow>
          (fst (markReplicas cs vbID (Suc k) rs),
           fst (snd (markSlot cs vbID k x)) # fst (snd (markReplicas cs vbID (Suc k) rs)),
           snd (snd (markSlot cs vbID k x)) @ snd (snd (markReplicas cs vbID (Suc k) rs))))"
  by (simp split: prod.splits option.splits)

lemma markReplicas_length:
  "length (fst (snd (markReplicas cs vbID k rs))) = length rs"
  by (induction rs arbitrary: k) (simp_all add: markReplicas_Cons del: markReplicas.simps(2) split: option.splits)

lemma markReplicas_None:
  "fst (markReplicas cs vbID k rs) = None \<longleftrightarrow>
     (\<forall>i<length rs. \<forall>err. VbucketToServer cs vbID (of_nat (k + i)) = Inl err \<longrightarrow>
        errors_Is err ErrInvalidReplica)"
proof (induction rs arbitrary: k)
  case Nil
  then show ?case by simp
next
  case (Cons x rs)
  have step: "fst (markReplicas cs vbID k (x # rs)) = None \<longleftrightarrow>
      fst (markSlot cs vbID k x) = None \<and> fst (markReplicas cs vbID (Suc k) rs) = None"
    by (auto split: prod.splits option.splits)
  have "(\<forall>i<length (x # rs). \<forall>err. VbucketToServer cs vbID (of_nat (k + i)) = Inl err \<longrightarrow>
        errors_Is err ErrInvalidReplica) \<longleftrightarrow>
     (\<forall>err. VbucketToServer cs vbID (of_nat k) = Inl err \<longrightarrow> errors_Is err ErrInvalidReplica) \<and>
     (\<forall>i<length rs. \<forall>err. VbucketToServer cs vbID (of_nat (Suc k + i)) = Inl err \<longrightarrow>
        errors_Is err ErrInvalidReplica)"
    by (auto simp: less_Suc_eq_0_disj simp del: of_nat_add of_nat_Suc)
  then show ?case
    unfolding step Cons.IH markSlot_None by blast
qed

lemma markReplicas_Some:
  "fst (markReplicas cs vbID k rs) = Some err \<Longrightarrow>
     \<not> errors_Is err ErrInvalidReplica \<and>
     (\<exists>i<length rs. VbucketToServer cs vbID (of_nat (k + i)) = Inl err)"
proof (induction rs arbitrary: k)
  case Nil
  then show ?case by simp
next
  case (Cons x rs)
  show ?case
  proof (cases "fst (markSlot cs vbID k x)")
    case (Some e)
    then have "e = err" using Cons.prems by (auto split: prod.splits option.splits)
    with markSlot_Some [OF Some] show ?thesis by auto
  next
    case None
    then have "fst (markReplicas cs vbID (Suc k) rs) = Some err"
      using Cons.prems by (auto split: prod.splits option.splits)
    from Cons.IH [OF this] obtain i where "i < length rs"
      "VbucketToServer cs vbID (of_nat (Suc k + i)) = Inl err" "\<not> errors_Is err ErrInvalidReplica"
      by blast
    then show ?thesis by (auto intro!: exI [of _ "Suc i"] simp del: of_nat_add of_nat_Suc)
  qed
qed

lemma markReplicas_slots:
  "fst (markReplicas cs vbID k rs) = None \<Longrightarrow> i < length rs \<Longrightarrow>
     fst (snd (markReplicas cs vbID k rs)) ! i =
       (if (case VbucketToServer cs vbID (of_nat (k + i)) of
              Inl err \<Rightarrow> errors_Is err ErrInvalidReplica | Inr serverIndex \<Rightarrow> serverIndex < 0)
        then SetAbsent (rs ! i) else rs ! i)"
proof (induction rs arbitrary: k i)
  case Nil
  then show ?case by simp
next
  case (Cons x rs)
  from Cons.prems(1) have a: "fst (markSlot cs vbID k x) = None"
    and b: "fst (markReplicas cs vbID (Suc k) rs) = None"
    by (auto split: prod.splits option.splits)
  have res: "fst (snd (markReplicas cs vbID k (x # rs))) =
      fst (snd (markSlot cs vbID k x)) # fst (snd (markReplicas cs vbID (Suc k) rs))"
    using a by (auto split: prod.splits option.splits)
  show ?case
  proof (cases i)
    case 0
    then show ?thesis using res markSlot_slot [OF a] by (simp del: of_nat_add of_nat_Suc)
  next
    case (Suc j)
    then have "j < length rs" using Cons.prems(2) by simp
    from Cons.IH [OF b this] show ?thesis using res Suc by (simp del: of_nat_add of_nat_Suc)
  qed
qed

lemma markSlot_keeps:
  "absent x \<longrightarrow> absent (fst (snd (markSlot cs vbID idx x)))"
  by (auto simp: markSlot_def SetAbsent_def split: sum.splits)

lemma markReplicas_keeps:
  "i < length rs \<Longrightarrow> absent (rs ! i) \<Longrightarrow>
     absent (fst (snd (markReplicas cs vbID k rs)) ! i)"
proof (induction rs arbitrary: k i)
  case Nil
  then show ?case by simp
next
  case (Cons x rs)
  show ?case
  proof (cases "fst (markSlot cs vbID k x)")
    case (Some e)
    then have "fst (snd (markReplicas cs vbID k (x # rs))) = x # rs"
      using markSlot_Some [OF Some] by (auto split: prod.splits option.splits)
    then show ?thesis using Cons.prems by simp
  next
    case None
    then have res: "fst (snd (markReplicas cs vbID k (x # rs))) =
      fst (snd (markSlot cs vbID k x)) # fst (snd (markReplicas cs vbID (Suc k) rs))"
      by (auto split: prod.splits option.splits)
    show ?thesis
    proof (cases i)
      case 0
      then show ?thesis using res Cons.prems markSlot_keeps [of x cs vbID k] by simp
    next
      case (Suc j)
      then show ?thesis using res Cons.prems Cons.IH [of j "Suc k"] by simp
    qed
  qed
qed

lemma markSlot_only:
  "absent (fst (snd (markSlot cs vbID idx x))) \<Longrightarrow>
     absent x \<or> (case VbucketToServer cs vbID (of_nat idx) of
              Inl err \<Rightarrow> errors_Is err ErrInvalidReplica | Inr serverIndex \<Rightarrow> serverIndex < 0)"
  by (auto simp: markSlot_def SetAbsent_def split: sum.splits if_splits)

lemma markReplicas_only:
  "i < length rs \<Longrightarrow> absent (fst (snd (markReplicas cs vbID k rs)) ! i) \<Longrightarrow>
     absent (rs ! i) \<or> (case VbucketToServer cs vbID (of_nat (k + i)) of
              Inl err \<Rightarrow> errors_Is err ErrInvalidReplica | Inr serverIndex \<Rightarrow> serverIndex < 0)"
proof (induction rs arbitrary: k i)
  case Nil
  then show ?case by simp
next
  case (Cons x rs)
  show ?case
  proof (cases "fst (markSlot cs vbID k x)")
    case (Some e)
    then have "fst (snd (markReplicas cs vbID k (x # rs))) = x # rs"
      using markSlot_Some [OF Some] by (simp add: markReplicas_Cons del: markReplicas.simps(2))
    then show ?thesis using Cons.prems by simp
  next
    case None
    then have res: "fst (snd (markReplicas cs vbID k (x # rs))) =
      fst (snd (markSlot cs vbID k x)) # fst (snd (markReplicas cs vbID (Suc k) rs))"
      by (simp add: markReplicas_Cons del: markReplicas.simps(2))
    show ?thesis
    proof (cases i)
      case 0
      then show ?thesis using res Cons.prems markSlot_only [of cs vbID k x]
        by (simp del: of_nat_add of_nat_Suc)
    next
      case (Suc j)
      then show ?thesis using res Cons.prems Cons.IH [of j "Suc k"]
        by (simp del: of_nat_add of_nat_Suc)
    qed
  qed
qed

lemma markEntries_Cons:
  "markEntries cs ((vbID, replicas) # rest) =
     (case fst (markReplicas cs vbID 0 replicas) of
        Some err \<Rightarrow> (Some err, (vbID, fst (snd (markReplicas cs vbID 0 replicas))) # rest,
                     snd (snd (markReplicas cs vbID 0 replicas)))
      | None \<Rightarrow>
          (fst (markEntries cs rest),
           (vbID, fst (snd (markReplicas cs vbID 0 replicas))) # fst (snd (markEntries cs rest)),
           snd (snd (markReplicas cs vbID 0 replicas)) @ snd (snd (markEntries cs rest))))"
  by (simp split: prod.splits option.splits)

lemma markEntries_None:
  "fst (markEntries cs m) = None \<longleftrightarrow>
     (\<forall>(vbID, replicas)\<in>set m. \<forall>idx<length replicas.
        \<forall>err. VbucketToServer cs vbID (of_nat idx) = Inl err \<longrightarrow> errors_Is err ErrInvalidReplica)"
proof (induction m)
  case Nil
  then show ?case by simp
next
  case (Cons p m)
  obtain vbID replicas where p: "p = (vbID, replicas)" by (cases p)
  have "fst (markEntries cs (p # m)) = None \<longleftrightarrow>
      fst (markReplicas cs vbID 0 replicas) = None \<and> fst (markEntries cs m) = None"
    unfolding p markEntries_Cons by (simp split: option.splits)
  then show ?case
    unfolding Cons.IH markReplicas_None p by simp
qed

lemma markEntries_Some:
  "fst (markEntries cs m) = Some err \<Longrightarrow>
     \<not> errors_Is err ErrInvalidReplica \<and>
     (\<exists>(vbID, replicas)\<in>set m. \<exists>idx<length replicas.
        VbucketToServer cs vbID (of_nat idx) = Inl err)"
proof (induction m)
  case Nil
  then show ?case by simp
next
  case (Cons p m)
  obtain vbID replicas where p: "p = (vbID, replicas)" by (cases p)
  show ?case
  proof (cases "fst (markReplicas cs vbID 0 replicas)")
    case (Some e)
    then have "e = err" using Cons.prems unfolding p markEntries_Cons by simp
    with markReplicas_Some [OF Some] show ?thesis unfolding p by auto
  next
    case None
    then have "fst (markEntries cs m) = Some err"
      using Cons.prems unfolding p markEntries_Cons by simp
    from Cons.IH [OF this] show ?thesis by auto
  qed
qed

lemma markEntries_ok:
  "fst (markEntries cs m) = None \<Longrightarrow>
     fst (snd (markEntries cs m)) =
       map (\<lambda>p. (fst p, fst (snd (markReplicas cs (fst p) 0 (snd p))))) m"
proof (induction m)
  case Nil
  then show ?case by simp
next
  case (Cons p m)
  obtain vbID replicas where p: "p = (vbID, replicas)" by (cases p)
  from Cons.prems have a: "fst (markReplicas cs vbID 0 replicas) = None"
    and b: "fst (markEntries cs m) = None"
    unfolding p markEntries_Cons by (simp_all split: option.splits)
  show ?case
    unfolding p markEntries_Cons using a Cons.IH [OF b] by simp
qed

lemma markEntries_any:
  "list_all2 (\<lambda>p q. fst q = fst p \<and>
       (snd q = snd p \<or> snd q = fst (snd (markReplicas cs (fst p) 0 (snd p)))))
     m (fst (snd (markEntries cs m)))"
proof (induction m)
  case Nil
  then show ?case by simp
next
  case (Cons p m)
  obtain vbID replicas where p: "p = (vbID, replicas)" by (cases p)
  show ?case
  proof (cases "fst (markReplicas cs vbID 0 replicas)")
    case (Some e)
    then show ?thesis unfolding p markEntries_Cons
      by (simp add: list_all2_refl)
  next
    case None
    then show ?thesis unfolding p markEntries_Cons using Cons.IH by simp
  qed
qed

lemma map_of_related:
  "list_all2 (\<lambda>p q. fst q = fst p \<and> R (fst p) (snd p) (snd q)) m m' \<Longrightarrow>
   map_of m k = Some v \<Longrightarrow> \<exists>v'. map_of m' k = Some v' \<and> R k v v'"
  by (induction m m' rule: list_all2_induct) (auto split: if_splits)

lemma map_of_mapped:
  "map_of (map (\<lambda>p. (fst p, g (fst p) (snd p))) m) k = map_option (g k) (map_of m k)"
  by (induction m) auto

lemma set_update_same:
  "\<forall>p\<in>set m. snd p = v \<Longrightarrow> set (AList.update k v m) = insert (k, v) (set m)"
  by (induction m) (auto simp: prod_eq_iff)

lemma set_fold_Store:
  "\<forall>p\<in>set m. snd p = v \<Longrightarrow>
     set (fold (\<lambda>vbID m. Store m vbID v) ks m) = set m \<union> (\<lambda>k. (k, v)) ` set ks"
proof (induction ks arbitrary: m)
  case Nil
  then show ?case by simp
next
  case (Cons k ks)
  have s: "set (Store m k v) = insert (k, v) (set m)"
    unfolding Store_def by (rule set_update_same [OF Cons.prems])
  then have "\<forall>p\<in>set (Store m k v). snd p = v" using Cons.prems by simp
  from Cons.IH [OF this] show ?case using s by simp
qed

lemma markSlot_fields:
  "vbUUID (fst (snd (markSlot cs vbID idx x))) = vbUUID x \<and>
   seqNo (fst (snd (markSlot cs vbID idx x))) = seqNo x"
  by (auto simp: markSlot_def SetAbsent_def split: sum.splits)

lemma markReplicas_fields:
  "i < length rs \<Longrightarrow>
     vbUUID (fst (snd (markReplicas cs vbID k rs)) ! i) = vbUUID (rs ! i) \<and>
     seqNo (fst (snd (markReplicas cs vbID k rs)) ! i) = seqNo (rs ! i)"
proof (induction rs arbitrary: k i)
  case Nil
  then show ?case by simp
next
  case (Cons x rs)
  show ?case
  proof (cases "fst (markSlot cs vbID k x)")
    case (Some e)
    then have "fst (snd (markReplicas cs vbID k (x # rs))) = x # rs"
      using markSlot_Some [OF Some] by (simp add: markReplicas_Cons del: markReplicas.simps(2))
    then show ?thesis by simp
  next
    case None
    then have res: "fst (snd (markReplicas cs vbID k (x # rs))) =
      fst (snd (markSlot cs vbID k x)) # fst (snd (markReplicas cs vbID (Suc k) rs))"
      by (simp add: markReplicas_Cons del: markReplicas.simps(2))
    show ?thesis
    proof (cases i)
      case 0
      then show ?thesis using res markSlot_fields [of cs vbID k x] by simp
    next
      case (Suc j)
      then show ?thesis using res Cons.prems Cons.IH [of j "Suc k"] by simp
    qed
  qed
qed

lemma markReplicas_absent:
  assumes "fst (markReplicas cs vbID k rs) = None" and "i < length rs"
  shows "absent (fst (snd (markReplicas cs vbID k rs)) ! i) \<longleftrightarrow>
     absent (rs ! i) \<or>
     (case VbucketToServer cs vbID (of_nat (k + i)) of
        Inl err \<Rightarrow> errors_Is err ErrInvalidReplica | Inr serverIndex \<Rightarrow> serverIndex < 0)"
  unfolding markReplicas_slots [OF assms] by (simp add: SetAbsent_def)

lemma reset_entries:
  assumes "configSnapshot r = Some cs" and "NumReplicas cs = Inr n" and "\<not> n + 1 <s 0"
  shows "\<exists>r'. reset r = Inr r' \<and> configSnapshot r' = Some cs \<and>
           set (persistedSeqNos r') =
             (\<lambda>k. (k, replicate (unat (n + 1)) zeroReplica)) ` set (vbIds r)"
proof -
  have "set (fold (\<lambda>vbID m. Store m vbID (replicate (unat (n + 1)) zeroReplica)) (vbIds r)
              CreateConcurrentSwissMap) =
        (\<lambda>k. (k, replicate (unat (n + 1)) zeroReplica)) ` set (vbIds r)"
    using set_fold_Store [of "[]" "replicate (unat (n + 1)) zeroReplica" "vbIds r"]
    by (simp add: CreateConcurrentSwissMap_def)
  then show ?thesis using assms by (simp add: reset_def)
qed

lemma reconfigure_fatal:
  assumes cs: "configSnapshot r = Some cs" and n: "NumReplicas cs = Inr n" "\<not> n + 1 <s 0"
    and v: "vbID \<in> set (vbIds r)" and i: "idx < unat (n + 1)"
    and e: "VbucketToServer cs vbID (of_nat idx) = Inl err" "\<not> errors_Is err ErrInvalidReplica"
    and h: "\<not> (observeTimer r \<and> observers r = 0)"
  shows "\<exists>err' r'. reconfigure r = Inl (Panic (PanicErr err') r') \<and>
           \<not> errors_Is err' ErrInvalidReplica"
proof -
  let ?r4 = "r\<lparr>observers := (if observeTimer r then observers r - 1 else observers r),
           activeGroupID := activeGroupID r + 1,
           logs := logs r @ LogDebug ''reconfigure triggerred'' #
                  (if observeTimer r
                   then [LogDebug ''observe close triggered'', LogDebug ''observe close done'']
                   else []) @
                  [LogInfo ''new cluster config received, groupId = %v'']\<rparr>"
  have "configSnapshot ?r4 = Some cs" "vbIds ?r4 = vbIds r" using cs by simp_all
  with reset_entries [of ?r4 cs n] n obtain r5 where
    r5: "reset ?r4 = Inr r5" "configSnapshot r5 = Some cs"
      "set (persistedSeqNos r5) = (\<lambda>k. (k, replicate (unat (n + 1)) zeroReplica)) ` set (vbIds r)"
    by auto
  have "(vbID, replicate (unat (n + 1)) zeroReplica) \<in> set (persistedSeqNos r5)"
    using r5(3) v by simp
  then have "fst (markEntries cs (persistedSeqNos r5)) \<noteq> None"
    unfolding markEntries_None using i e by force
  then obtain err' where err': "fst (markEntries cs (persistedSeqNos r5)) = Some err'"
    by auto
  from markEntries_Some [OF this] have ne: "\<not> errors_Is err' ErrInvalidReplica" by simp
  have "\<exists>r6. markAbsentInstances r5 = Inr (Some err', r6)"
    using err' r5(2) by (auto simp: markAbsentInstances_def split: prod.splits)
  then have "\<exists>r6. reconfigure r = Inl (Panic (PanicErr err') r6)"
    unfolding reconfigure_unfold [OF h] using r5(1) by auto
  with ne show ?thesis by blast
qed

text \<open>
  Claim C7. With a snapshot installed, \<^verbatim>\<open>markAbsentInstances\<close> returns no error exactly
  when no call of \<^verbatim>\<open>VbucketToServer\<close> fails with an error other than
  \<^verbatim>\<open>ErrInvalidReplica\<close>; the flag \<^verbatim>\<open>absent\<close> of a slot is then set afterwards exactly
  when it was set before or \<^verbatim>\<open>VbucketToServer\<close> returns \<^verbatim>\<open>ErrInvalidReplica\<close> or a
  negative server index for the slot. An error it returns is such an other error of
  \<^verbatim>\<open>VbucketToServer\<close>, and a \<^verbatim>\<open>reconfigure\<close> that gets past its handshake with the
  observer panics on it. In every case a slot keeps its vbUUID and its seqNo, a slot
  that was absent is absent afterwards, and a slot is absent afterwards only if it
  was before or for an invalid replica or a negative server index.
\<close>

theorem markAbsentInstances_marks:
  assumes cs: "configSnapshot r = Some cs"
  shows "(\<exists>outerError r'. markAbsentInstances r = Inr (outerError, r') \<and>
     ((outerError = None) =
        (\<forall>(vbID, replicas)\<in>set (persistedSeqNos r). \<forall>idx<length replicas.
           \<forall>err. VbucketToServer cs vbID (of_nat idx) = Inl err \<longrightarrow>
             errors_Is err ErrInvalidReplica)) \<and>
     (\<forall>err. outerError = Some err \<longrightarrow>
        \<not> errors_Is err ErrInvalidReplica \<and>
        (\<exists>(vbID, replicas)\<in>set (persistedSeqNos r). \<exists>idx<length replicas.
           VbucketToServer cs vbID (of_nat idx) = Inl err)) \<and>
     (\<forall>vbID replicas. Load (persistedSeqNos r) vbID = Some replicas \<longrightarrow>
        (\<exists>replicas'. Load (persistedSeqNos r') vbID = Some replicas' \<and>
           length replicas' = length replicas \<and>
           (\<forall>idx<length replicas.
              vbUUID (replicas' ! idx) = vbUUID (replicas ! idx) \<and>
              seqNo (replicas' ! idx) = seqNo (replicas ! idx) \<and>
              (absent (replicas ! idx) \<longrightarrow> absent (replicas' ! idx)) \<and>
              (absent (replicas' ! idx) \<longrightarrow>
                 absent (replicas ! idx) \<or>
                 (case VbucketToServer cs vbID (of_nat idx) of
                    Inl err \<Rightarrow> errors_Is err ErrInvalidReplica
                  | Inr serverIndex \<Rightarrow> serverIndex < 0)) \<and>
              (outerError = None \<longrightarrow>
                 absent (replicas' ! idx) =
                   (absent (replicas ! idx) \<or>
                    (case VbucketToServer cs vbID (of_nat idx) of
                       Inl err \<Rightarrow> errors_Is err ErrInvalidReplica
                     | Inr serverIndex \<Rightarrow> serverIndex < 0)))))))
   \<and> (\<forall>n. NumReplicas cs = Inr n \<and> \<not> n + 1 <s 0 \<and>
          \<not> (observeTimer r \<and> observers r = 0) \<and>
          (\<exists>vbID\<in>set (vbIds r). \<exists>idx<unat (n + 1). \<exists>err.
             VbucketToServer cs vbID (of_nat idx) = Inl err \<and>
             \<not> errors_Is err ErrInvalidReplica) \<longrightarrow>
          (\<exists>err r'. reconfigure r = Inl (Panic (PanicErr err) r') \<and>
             \<not> errors_Is err ErrInvalidReplica))"
proof (rule conjI)
  let ?m = "persistedSeqNos r"
  let ?res = "markEntries cs ?m"
  let ?r' = "r\<lparr>persistedSeqNos := fst (snd ?res), logs := logs r @ snd (snd ?res)\<rparr>"
  have run: "markAbsentInstances r = Inr (fst ?res, ?r')"
    using cs by (simp add: markAbsentInstances_def split: prod.splits)
  have slots: "\<exists>replicas'. Load (persistedSeqNos ?r') vbID = Some replicas' \<and>
           length replicas' = length replicas \<and>
           (\<forall>idx<length replicas.
              vbUUID (replicas' ! idx) = vbUUID (replicas ! idx) \<and>
              seqNo (replicas' ! idx) = seqNo (replicas ! idx) \<and>
              (absent (replicas ! idx) \<longrightarrow> absent (replicas' ! idx)) \<and>
              (absent (replicas' ! idx) \<longrightarrow>
                 absent (replicas ! idx) \<or>
                 (case VbucketToServer cs vbID (of_nat idx) of
                    Inl err \<Rightarrow> errors_Is err ErrInvalidReplica
                  | Inr serverIndex \<Rightarrow> serverIndex < 0)) \<and>
              (fst ?res = None \<longrightarrow>
                 absent (replicas' ! idx) =
                   (absent (replicas ! idx) \<or>
                    (case VbucketToServer cs vbID (of_nat idx) of
                       Inl err \<Rightarrow> errors_Is err ErrInvalidReplica
                     | Inr serverIndex \<Rightarrow> serverIndex < 0))))"
    if ld: "Load ?m vbID = Some replicas" for vbID replicas
  proof -
    let ?marked = "fst (snd (markReplicas cs vbID 0 replicas))"
    from ld have mo: "map_of ?m vbID = Some replicas" by (simp add: Load_def)
    from map_of_related [OF markEntries_any mo]
    obtain replicas' where r': "map_of (fst (snd ?res)) vbID = Some replicas'"
      and alt: "replicas' = replicas \<or> replicas' = ?marked"
      by blast
    have len: "length replicas' = length replicas"
      using alt markReplicas_length [of cs vbID 0 replicas] by auto
    have fields: "vbUUID (replicas' ! idx) = vbUUID (replicas ! idx) \<and>
              seqNo (replicas' ! idx) = seqNo (replicas ! idx)" if "idx < length replicas" for idx
      using alt that markReplicas_fields [of idx replicas cs vbID 0] by auto
    have keep: "absent (replicas' ! idx)" if "idx < length replicas" "absent (replicas ! idx)" for idx
      using alt that markReplicas_keeps [of idx replicas cs vbID 0] by auto
    have only: "absent (replicas ! idx) \<or>
                 (case VbucketToServer cs vbID (of_nat idx) of
                    Inl err \<Rightarrow> errors_Is err ErrInvalidReplica
                  | Inr serverIndex \<Rightarrow> serverIndex < 0)"
      if "idx < length replicas" "absent (replicas' ! idx)" for idx
      using alt that markReplicas_only [of idx replicas cs vbID 0] by auto
    have exact: "absent (replicas' ! idx) =
                   (absent (replicas ! idx) \<or>
                    (case VbucketToServer cs vbID (of_nat idx) of
                       Inl err \<Rightarrow> errors_Is err ErrInvalidReplica
                     | Inr serverIndex \<Rightarrow> serverIndex < 0))"
      if "idx < length replicas" "fst ?res = None" for idx
    proof -
      have "map_of (fst (snd ?res)) vbID = Some ?marked"
        unfolding markEntries_ok [OF that(2)]
          map_of_mapped [of "\<lambda>k rs. fst (snd (markReplicas cs k 0 rs))"]
        using mo by simp
      with r' have eq: "replicas' = ?marked" by simp
      have "(vbID, replicas) \<in> set ?m" using mo by (rule map_of_SomeD)
      with that(2) have "fst (markReplicas cs vbID 0 replicas) = None"
        unfolding markEntries_None markReplicas_None by auto
      from markReplicas_absent [OF this that(1)] eq show ?thesis by simp
    qed
    show ?thesis
      using r' len fields keep only exact by (auto simp: Load_def)
  qed
  show "\<exists>outerError r'. markAbsentInstances r = Inr (outerError, r') \<and>
     ((outerError = None) =
        (\<forall>(vbID, replicas)\<in>set (persistedSeqNos r). \<forall>idx<length replicas.
           \<forall>err. VbucketToServer cs vbID (of_nat idx) = Inl err \<longrightarrow>
             errors_Is err ErrInvalidReplica)) \<and>
     (\<forall>err. outerError = Some err \<longrightarrow>
        \<not> errors_Is err ErrInvalidReplica \<and>
        (\<exists>(vbID, replicas)\<in>set (persistedSeqNos r). \<exists>idx<length replicas.
           VbucketToServer cs vbID (of_nat idx) = Inl err)) \<and>
     (\<forall>vbID replicas. Load (persistedSeqNos r) vbID = Some replicas \<longrightarrow>
        (\<exists>replicas'. Load (persistedSeqNos r') vbID = Some replicas' \<and>
           length replicas' = length replicas \<and>
           (\<forall>idx<length replicas.
              vbUUID (replicas' ! idx) = vbUUID (replicas ! idx) \<and>
              seqNo (replicas' ! idx) = seqNo (replicas ! idx) \<and>
              (absent (replicas ! idx) \<longrightarrow> absent (replicas' ! idx)) \<and>
              (absent (replicas' ! idx) \<longrightarrow>
                 absent (replicas ! idx) \<or>
                 (case VbucketToServer cs vbID (of_nat idx) of
                    Inl err \<Rightarrow> errors_Is err ErrInvalidReplica
                  | Inr serverIndex \<Rightarrow> serverIndex < 0)) \<and>
              (outerError = None \<longrightarrow>
                 absent (replicas' ! idx) =
                   (absent (replicas ! idx) \<or>
                    (case VbucketToServer cs vbID (of_nat idx) of
                       Inl err \<Rightarrow> errors_Is err ErrInvalidReplica
                     | Inr serverIndex \<Rightarrow> serverIndex < 0))))))"
  proof (intro exI conjI)
    show "markAbsentInstances r = Inr (fst ?res, ?r')" by (rule run)
    show "(fst ?res = None) =
        (\<forall>(vbID, replicas)\<in>set (persistedSeqNos r). \<forall>idx<length replicas.
           \<forall>err. VbucketToServer cs vbID (of_nat idx) = Inl err \<longrightarrow>
             errors_Is err ErrInvalidReplica)"
      by (rule markEntries_None)
    show "\<forall>err. fst ?res = Some err \<longrightarrow>
        \<not> errors_Is err ErrInvalidReplica \<and>
        (\<exists>(vbID, replicas)\<in>set (persistedSeqNos r). \<exists>idx<length replicas.
           VbucketToServer cs vbID (of_nat idx) = Inl err)"
      using markEntries_Some by blast
    show "\<forall>vbID replicas. Load (persistedSeqNos r) vbID = Some replicas \<longrightarrow>
        (\<exists>replicas'. Load (persistedSeqNos ?r') vbID = Some replicas' \<and>
           length replicas' = length replicas \<and>
           (\<forall>idx<length replicas.
              vbUUID (replicas' ! idx) = vbUUID (replicas ! idx) \<and>
              seqNo (replicas' ! idx) = seqNo (replicas ! idx) \<and>
              (absent (replicas ! idx) \<longrightarrow> absent (replicas' ! idx)) \<and>
              (absent (replicas' ! idx) \<longrightarrow>
                 absent (replicas ! idx) \<or>
                 (case VbucketToServer cs vbID (of_nat idx) of
                    Inl err \<Rightarrow> errors_Is err ErrInvalidReplica
                  | Inr serverIndex \<Rightarrow> serverIndex < 0)) \<and>
              (fst ?res = None \<longrightarrow>
                 absent (replicas' ! idx) =
                   (absent (replicas ! idx) \<or>
                    (case VbucketToServer cs vbID (of_nat idx) of
                       Inl err \<Rightarrow> errors_Is err ErrInvalidReplica
                     | Inr serverIndex \<Rightarrow> serverIndex < 0)))))"
      using slots by blast
  qed
next
  show "\<forall>n. NumReplicas cs = Inr n \<and> \<not> n + 1 <s 0 \<and>
          \<not> (observeTimer r \<and> observers r = 0) \<and>
          (\<exists>vbID\<in>set (vbIds r). \<exists>idx<unat (n + 1). \<exists>err.
             VbucketToServer cs vbID (of_nat idx) = Inl err \<and>
             \<not> errors_Is err ErrInvalidReplica) \<longrightarrow>
          (\<exists>err r'. reconfigure r = Inl (Panic (PanicErr err) r') \<and>
             \<not> errors_Is err ErrInvalidReplica)"
    using reconfigure_fatal [OF cs] by blast
qed

theorem markAbsentInstances_marks_witness:
  "(\<exists>r' replicas'.
      markAbsentInstances
        (NewRollbackMitigation [7]\<lparr>configSnapshot :=
           Some \<lparr>revEpoch = 1, revID = 1, NumReplicas = Inr 2,
                 VbucketToServer = (\<lambda>vb idx. if idx = 2 then Inl (Wrapped ''vb'' ErrInvalidReplica)
                                              else if idx = 1 then Inr (- 1) else Inr 0)\<rparr>,
           persistedSeqNos := [(7, [zeroReplica, zeroReplica, zeroReplica])]\<rparr>)
        = Inr (None, r') \<and>
      Load (persistedSeqNos r') 7 = Some replicas' \<and> length replicas' = 3 \<and>
      \<not> absent (replicas' ! 0) \<and> absent (replicas' ! 1) \<and> absent (replicas' ! 2))
   \<and> (\<exists>err r'. reconfigure
        (NewRollbackMitigation [7]\<lparr>configSnapshot :=
           Some \<lparr>revEpoch = 1, revID = 1, NumReplicas = Inr 2,
                 VbucketToServer = (\<lambda>vb idx. if idx = 2 then Inl (ErrOther ''no config'')
                                              else Inr 0)\<rparr>\<rparr>)
        = Inl (Panic (PanicErr err) r') \<and> \<not> errors_Is err ErrInvalidReplica)"
proof (rule conjI)
  let ?cs = "\<lparr>revEpoch = 1, revID = 1, NumReplicas = Inr 2,
                 VbucketToServer = (\<lambda>vb idx. if idx = 2 then Inl (Wrapped ''vb'' ErrInvalidReplica)
                                              else if idx = 1 then Inr (- 1) else Inr 0)\<rparr>
             :: ConfigSnapshot"
  let ?rs = "[zeroReplica, zeroReplica, zeroReplica]"
  let ?r = "NewRollbackMitigation [7]\<lparr>configSnapshot := Some ?cs, persistedSeqNos := [(7, ?rs)]\<rparr>"
  have cs: "configSnapshot ?r = Some ?cs" by simp
  have ld: "Load (persistedSeqNos ?r) 7 = Some ?rs" by (simp add: Load_def)
  have fine: "\<forall>(vbID, replicas)\<in>set (persistedSeqNos ?r). \<forall>idx<length replicas.
           \<forall>err. VbucketToServer ?cs vbID (of_nat idx) = Inl err \<longrightarrow>
             errors_Is err ErrInvalidReplica"
    by (auto split: if_splits)
  from markAbsentInstances_marks [OF cs] obtain outerError r' where
    run: "markAbsentInstances ?r = Inr (outerError, r')"
    and none: "(outerError = None) =
        (\<forall>(vbID, replicas)\<in>set (persistedSeqNos ?r). \<forall>idx<length replicas.
           \<forall>err. VbucketToServer ?cs vbID (of_nat idx) = Inl err \<longrightarrow>
             errors_Is err ErrInvalidReplica)"
    and slots: "\<forall>vbID replicas. Load (persistedSeqNos ?r) vbID = Some replicas \<longrightarrow>
        (\<exists>replicas'. Load (persistedSeqNos r') vbID = Some replicas' \<and>
           length replicas' = length replicas \<and>
           (\<forall>idx<length replicas.
              vbUUID (replicas' ! idx) = vbUUID (replicas ! idx) \<and>
              seqNo (replicas' ! idx) = seqNo (replicas ! idx) \<and>
              (absent (replicas ! idx) \<longrightarrow> absent (replicas' ! idx)) \<and>
              (absent (replicas' ! idx) \<longrightarrow>
                 absent (replicas ! idx) \<or>
                 (case VbucketToServer ?cs vbID (of_nat idx) of
                    Inl err \<Rightarrow> errors_Is err ErrInvalidReplica
                  | Inr serverIndex \<Rightarrow> serverIndex < 0)) \<and>
              (outerError = None \<longrightarrow>
                 absent (replicas' ! idx) =
                   (absent (replicas ! idx) \<or>
                    (case VbucketToServer ?cs vbID (of_nat idx) of
                       Inl err \<Rightarrow> errors_Is err ErrInvalidReplica
                     | Inr serverIndex \<Rightarrow> serverIndex < 0)))))"
    by (elim conjE exE) (rule that; assumption)
  from none fine have ok: "outerError = None" by (rule iffD2)
  from slots [rule_format, OF ld] obtain replicas' where
    l': "Load (persistedSeqNos r') 7 = Some replicas'" and len: "length replicas' = length ?rs"
    and each: "\<forall>idx<length ?rs.
              vbUUID (replicas' ! idx) = vbUUID (?rs ! idx) \<and>
              seqNo (replicas' ! idx) = seqNo (?rs ! idx) \<and>
              (absent (?rs ! idx) \<longrightarrow> absent (replicas' ! idx)) \<and>
              (absent (replicas' ! idx) \<longrightarrow>
                 absent (?rs ! idx) \<or>
                 (case VbucketToServer ?cs 7 (of_nat idx) of
                    Inl err \<Rightarrow> errors_Is err ErrInvalidReplica
                  | Inr serverIndex \<Rightarrow> serverIndex < 0)) \<and>
              (outerError = None \<longrightarrow>
                 absent (replicas' ! idx) =
                   (absent (?rs ! idx) \<or>
                    (case VbucketToServer ?cs 7 (of_nat idx) of
                       Inl err \<Rightarrow> errors_Is err ErrInvalidReplica
                     | Inr serverIndex \<Rightarrow> serverIndex < 0)))"
    by (elim conjE exE) (rule that; assumption)
  have "\<not> absent (replicas' ! 0)" using each [rule_format, of 0] ok by (simp add: zeroReplica_def)
  moreover have "absent (replicas' ! 1)" using each [rule_format, of 1] ok by simp
  moreover have "absent (replicas' ! 2)" using each [rule_format, of 2] ok by simp
  ultimately show "\<exists>r' replicas'. markAbsentInstances ?r = Inr (None, r') \<and>
      Load (persistedSeqNos r') 7 = Some replicas' \<and> length replicas' = 3 \<and>
      \<not> absent (replicas' ! 0) \<and> absent (replicas' ! 1) \<and> absent (replicas' ! 2)"
    using run ok l' len by auto
next
  let ?cs = "\<lparr>revEpoch = 1, revID = 1, NumReplicas = Inr 2,
                 VbucketToServer = (\<lambda>vb idx. if idx = 2 then Inl (ErrOther ''no config'')
                                              else Inr 0)\<rparr> :: ConfigSnapshot"
  let ?r = "NewRollbackMitigation [7]\<lparr>configSnapshot := Some ?cs\<rparr>"
  have cs: "configSnapshot ?r = Some ?cs" by simp
  have "NumReplicas ?cs = Inr 2 \<and> \<not> (2 :: 64 word) + 1 <s 0 \<and>
          \<not> (observeTimer ?r \<and> observers ?r = 0) \<and>
          (\<exists>vbID\<in>set (vbIds ?r). \<exists>idx<unat ((2 :: 64 word) + 1). \<exists>err.
             VbucketToServer ?cs vbID (of_nat idx) = Inl err \<and>
             \<not> errors_Is err ErrInvalidReplica)"
    by (auto simp: NewRollbackMitigation_def word_sless_alt intro!: exI [of _ 2])
  then show "\<exists>err r'. reconfigure ?r = Inl (Panic (PanicErr err) r') \<and>
      \<not> errors_Is err ErrInvalidReplica"
    by (rule markAbsentInstances_marks [OF cs, THEN conjunct2, rule_format])
qed

subsection \<open>The generation counter\<close>



















end
